theory Spec2Isabelle
  imports Complex_Main "HOL-Library.Word" "HOL-Library.Sublist" "HOL-Library.AList"
begin

section \<open>Text\<close>

text \<open>
  Texts whose characters matter (the criterion's long description, the captured output,
  the comments) are JavaScript strings: sequences of 16-bit code units. Identifiers and
  names, which the program only compares and passes on, are plain strings. Bytes read
  from and written to pipes are 8-bit words.
\<close>

type_synonym code_unit = "16 word"
type_synonym js_string = "code_unit list"
type_synonym bytes = "8 word list"

definition ustr :: "string \<Rightarrow> js_string" where
  "ustr s = map (\<lambda>c. of_nat (of_char c)) s"

definition SPACE :: code_unit where "SPACE = 0x20"
definition LF :: code_unit where "LF = 0x0A"
definition CR :: code_unit where "CR = 0x0D"
definition PUNCTUATION_SPACE :: code_unit where "PUNCTUATION_SPACE = 0x2008"

text \<open>The line terminators of the regular expression language: LF, CR, U+2028, U+2029.\<close>

definition is_line_terminator :: "code_unit \<Rightarrow> bool" where
  "is_line_terminator c = (c = 0x0A \<or> c = 0x0D \<or> c = 0x2028 \<or> c = 0x2029)"

subsection \<open>\<^verbatim>\<open>.replace(/<br\/>\r\n/g, "\n")\<close>\<close>

definition br_crlf :: js_string where
  "br_crlf = [0x3C, 0x62, 0x72, 0x2F, 0x3E, 0x0D, 0x0A]"

text \<open>
  A global replace scans from the left; where the pattern matches, the replacement is
  emitted and the scan goes on after the match, otherwise the code unit is copied.
\<close>

function replace_br :: "js_string \<Rightarrow> js_string" where
  "replace_br [] = []"
| "replace_br (c # cs) =
     (if prefix br_crlf (c # cs) then LF # replace_br (drop (length br_crlf) (c # cs))
      else c # replace_br cs)"
  by pat_completeness auto
termination
  by (relation "measure length") (auto simp: br_crlf_def)

subsection \<open>\<^verbatim>\<open>.replace(/^ +/mg, s => '\u2008'.repeat(s.length))\<close>\<close>

text \<open>
  With the \<open>m\<close> flag, \<open>^\<close> matches at the start of the text and after every line
  terminator. \<open>bol\<close> says whether the scan position is such a place. There the greedy
  \<open> +\<close> takes the maximal run of spaces \<open>s\<close>; a non-empty run is replaced by
  \<open>length s\<close> copies of U+2008 and the scan goes on behind it.
\<close>

function replace_leading_spaces :: "bool \<Rightarrow> js_string \<Rightarrow> js_string" where
  "replace_leading_spaces bol [] = []"
| "replace_leading_spaces bol (c # cs) =
     (let s = takeWhile (\<lambda>x. x = SPACE) (c # cs) in
      if bol \<and> s \<noteq> [] then
        replicate (length s) PUNCTUATION_SPACE
          @ replace_leading_spaces False (dropWhile (\<lambda>x. x = SPACE) (c # cs))
      else c # replace_leading_spaces (is_line_terminator c) cs)"
  by pat_completeness auto
termination
  by (relation "measure (\<lambda>(b, t). length t)")
     (auto simp: length_dropWhile_le less_Suc_eq_le split: if_splits)

definition normalize_comments :: "js_string \<Rightarrow> js_string" where
  "normalize_comments out = replace_leading_spaces True out"

subsection \<open>\<^verbatim>\<open>new TextDecoder().decode(chunk)\<close>\<close>

text \<open>
  The UTF-8 decoder of the Encoding standard, as a fresh \<^verbatim>\<open>TextDecoder\<close> runs it over one
  chunk: \<open>utf8_lead\<close> reads the first byte of a character, \<open>utf8_trail\<close> the bytes that
  continue it (\<open>cp\<close> is the code point so far, \<open>needed\<close> the number of bytes still
  missing, \<open>lo\<close> and \<open>hi\<close> the bounds of the next byte). A byte that does not fit
  gives U+FFFD and is read again as a first byte; a character that the chunk does not
  complete gives U+FFFD. A leading U+FEFF is dropped, and a code point beyond U+FFFF
  becomes two code units.
\<close>

fun utf8_lead :: "bytes \<Rightarrow> nat list"
  and utf8_trail :: "nat \<Rightarrow> nat \<Rightarrow> nat \<Rightarrow> nat \<Rightarrow> bytes \<Rightarrow> nat list" where
  "utf8_lead [] = []"
| "utf8_lead (b # bs) =
     (let x = unat b in
      if x \<le> 0x7F then x # utf8_lead bs
      else if 0xC2 \<le> x \<and> x \<le> 0xDF then utf8_trail (x - 0xC0) 1 0x80 0xBF bs
      else if 0xE0 \<le> x \<and> x \<le> 0xEF then
        utf8_trail (x - 0xE0) 2 (if x = 0xE0 then 0xA0 else 0x80) (if x = 0xED then 0x9F else 0xBF) bs
      else if 0xF0 \<le> x \<and> x \<le> 0xF4 then
        utf8_trail (x - 0xF0) 3 (if x = 0xF0 then 0x90 else 0x80) (if x = 0xF4 then 0x8F else 0xBF) bs
      else 0xFFFD # utf8_lead bs)"
| "utf8_trail cp needed lo hi [] = [0xFFFD]"
| "utf8_trail cp needed lo hi (b # bs) =
     (let x = unat b in
      if x < lo \<or> hi < x then 0xFFFD # utf8_lead (b # bs)
      else if needed = 1 then (cp * 64 + (x - 0x80)) # utf8_lead bs
      else utf8_trail (cp * 64 + (x - 0x80)) (needed - 1) 0x80 0xBF bs)"

definition utf16_units :: "nat \<Rightarrow> js_string" where
  "utf16_units cp =
     (if cp < 0x10000 then [of_nat cp]
      else [of_nat (0xD800 + (cp - 0x10000) div 0x400), of_nat (0xDC00 + (cp - 0x10000) mod 0x400)])"

definition utf8_decode :: "bytes \<Rightarrow> js_string" where
  "utf8_decode bs =
     concat (map utf16_units
       (case utf8_lead bs of [] \<Rightarrow> [] | cp # cps \<Rightarrow> if cp = 0xFEFF then cps else cp # cps))"

subsection \<open>\<^verbatim>\<open>Number.prototype.toString\<close> on integers\<close>

text \<open>The decimal digits of an integer, which is what \<^verbatim>\<open>toString\<close> gives for the whole
  numbers below \<open>10\<^sup>2\<^sup>1\<close> in absolute value; the numbers it is applied to here (user ids,
  byte counts) are taken to be such.\<close>

fun digits :: "nat \<Rightarrow> string" where
  "digits n = (if n < 10 then [char_of (48 + n)] else digits (n div 10) @ [char_of (48 + n mod 10)])"

declare digits.simps [simp del]

definition toString :: "int \<Rightarrow> string" where
  "toString i = (if i < 0 then CHR ''-'' # digits (nat (- i)) else digits (nat i))"

section \<open>Data model\<close>

text \<open>\<^verbatim>\<open>CriteriaOutputData\<close>, \<^verbatim>\<open>AssessmentOutputData\<close> and \<^verbatim>\<open>SerializedIntermediateData\<close>.
  The open-ended \<^verbatim>\<open>criterion_<id>\<close> properties of an assessment are kept, in insertion
  order, as an association list from the property name. Point values are the numbers of
  the language, finite doubles, taken as the real numbers they denote.\<close>

record criteria_output_data =
  points :: real
  comments :: js_string

record assessment_output_data =
  user_id :: string
  assessment_type :: string
  criteria :: "(string \<times> criteria_output_data) list"

record intermediate_data =
  canvas :: string
  course :: int
  assignment :: int
  rubricAssociationId :: "int option"
  assessmentOutputDataList :: "assessment_output_data list"

text \<open>\<^verbatim>\<open>InputData\<close>, restricted to the fields \<^verbatim>\<open>evaluate\<close> reads. \<open>course_id\<close> is
  the number \<^verbatim>\<open>parseInt(courseData._id)\<close>.\<close>

record criteria_data =
  criteria_id :: string
  description :: string
  longDescription :: js_string
  criteria_points :: real

record rubric_data =
  rubric_id :: string
  title :: string
  rubric_criteria :: "criteria_data list"
  pointsPossible :: real

record submission_data =
  submission_id :: string
  user_uid :: string
  user_name :: string

record assignment_data =
  assignment_id :: string
  assignment_name :: string
  course_id :: int
  rubric :: rubric_data
  submissions :: "submission_data list"

text \<open>The module-level constants derived from the command line.\<close>

record config =
  verbose :: bool
  dryRun :: bool
  cfg_canvas :: string
  cfg_assignment :: int
  users :: "int list option"
  exceptUsers :: "int list"
  cmd :: string

section \<open>The environment\<close>

text \<open>
  The answers of the requests of \<^verbatim>\<open>evaluate\<close> (lines 372-393 of \<^verbatim>\<open>app.ts\<close>). \<open>Rest_rejects\<close>
  and \<open>Download_rejects\<close> stand for a request that throws, or whose answer cannot be
  read; a body is the list of its chunks.
\<close>

record attachment =
  display_name :: string
  url :: string

datatype rest_response = Rest_rejects | Rest_attachments "attachment list"

datatype download_response =
  Download_rejects | Download_response (status: nat) (body: "bytes list option")

text \<open>How a child ends, and what \<^verbatim>\<open>process.status()\<close> of the runtime reports for it:
  \<^verbatim>\<open>success\<close> exactly for exit code 0; a child ended by a signal has no success and
  the code 128 plus the signal.\<close>

datatype child_exit = Exited int | Signaled int

record process_status =
  success :: bool
  code :: int
  signal :: "int option"

fun process_status_of :: "child_exit \<Rightarrow> process_status" where
  "process_status_of (Exited c) = \<lparr>success = (c = 0), code = c, signal = None\<rparr>"
| "process_status_of (Signaled s) = \<lparr>success = False, code = 128 + s, signal = Some s\<rparr>"

text \<open>
  One run of the test command. \<open>reads\<close> is the order in which the reads of the two pipes
  return: a chunk of standard output, a chunk of standard error, or a failed read; after
  the last of them both pipes are at their end. \<open>stdin_error\<close> says that writing the input
  is rejected (a broken pipe); the promise of the input writer settles after
  \<open>stdin_settles_after\<close> of the reads. \<open>stdin_takes\<close> is the number of bytes that one call
  of \<^verbatim>\<open>write\<close> on the child's input moves at most: the call resolves to the number of bytes
  it has written, which can be less than it was given. \<open>leaves_undeletable\<close> says that the
  test command leaves in its working directory something that cannot be deleted (a
  read-only directory that is not empty). The child is one that ends: a child that never
  closes its pipes is outside the model.
\<close>

datatype stream_event = Stdout_chunk bytes | Stderr_chunk bytes | Read_fault

record child_run =
  spawn_ok :: bool
  reads :: "stream_event list"
  stdin_error :: bool
  stdin_settles_after :: nat
  stdin_takes :: nat
  leaves_undeletable :: bool
  exit :: child_exit

datatype upload_result = Dry_run_result | Server_result bool

fun result_errors :: "upload_result \<Rightarrow> bool" where
  "result_errors Dry_run_result = False"
| "result_errors (Server_result e) = e"

datatype post_response = Post_rejects | Post_json upload_result

text \<open>
  Everything the program gets from outside: the text codec of the runtime and its
  addition of numbers (the rounding sum of two doubles, on sums that stay finite), and the
  answer to each call,
  addressed by the index of the submission (and of the attachment or the criterion) the
  call is made for, or of the assessment for a post.
\<close>

record world =
  text_decode :: "bytes \<Rightarrow> js_string"
  text_encode :: "js_string \<Rightarrow> bytes"
  number_add :: "real \<Rightarrow> real \<Rightarrow> real"
  mktemp_ok :: "nat \<Rightarrow> bool"
  rest :: "nat \<Rightarrow> rest_response"
  download :: "nat \<Rightarrow> nat \<Rightarrow> download_response"
  file_open_ok :: "nat \<Rightarrow> nat \<Rightarrow> bool"
  child :: "nat \<Rightarrow> nat \<Rightarrow> child_run"
  post :: "nat \<Rightarrow> post_response"

section \<open>Effects\<close>

datatype error =
  Mktemp_failed | Fetch_failed | Bsod string | Unexpected_status nat | Got_no_body
  | Open_failed | Spawn_failed | Stream_read_failed | Remove_failed | Post_failed

text \<open>A value of the child's environment: a text, or the text \<^verbatim>\<open>toString\<close> gives for a
  number.\<close>

datatype env_value = Env_text string | Env_number real

record run_opts =
  run_cmd :: string
  cwd :: nat
  env :: "(string \<times> env_value) list"

datatype log_msg =
  Skipping_submission nat nat string string
  | Evaluating_submission nat nat string string
  | Testing_for nat nat nat string
  | Executing run_opts
  | Failed_writing_process_input
  | Input_error_dir
  | Pipes_closed nat
  | Output_and_status js_string process_status
  | Cleaning_up
  | Assessment_dump assessment_output_data
  | Done_evaluating intermediate_data
  | Filtered_out_user string
  | Uploading_assessments "int option"
  | Empty_line
  | Url_and_assessment int "int option" assessment_output_data
  | Would_upload real string
  | Results_dir "upload_result list"
  | Error_dir upload_result
  | Upload_finished nat nat

datatype event =
  Console_log log_msg
  | Stdout_write bytes
  | Make_temp_dir nat
  | Remove_dir nat
  | Get_submission string
  | Get_attachment string
  | Open_file nat string
  | Write_file nat string bytes
  | Close_file nat string
  | Run run_opts
  | Stdin_write bytes bytes
  | Stdin_close
  | Post_assessment int "int option" assessment_output_data

text \<open>The state outside the program's variables: what has been done so far, in order,
  the temporary directories that exist, and those among them that hold something that
  cannot be deleted. \<open>Stdin_write given written\<close> is a call of \<^verbatim>\<open>write\<close> on the child's input
  with the bytes it was given and the bytes it has written. Console writes that the
  program starts without waiting for earlier ones are recorded in the order in which it
  starts them.\<close>

record run_state =
  trace :: "event list"
  dirs :: "nat set"
  undeletable :: "nat set"
  next_dir :: nat

definition emit :: "event \<Rightarrow> run_state \<Rightarrow> run_state" where
  "emit e st = st\<lparr>trace := trace st @ [e]\<rparr>"

definition console_log :: "log_msg \<Rightarrow> run_state \<Rightarrow> run_state" where
  "console_log m st = emit (Console_log m) st"

definition log_if :: "bool \<Rightarrow> log_msg \<Rightarrow> run_state \<Rightarrow> run_state" where
  "log_if b m st = (if b then console_log m st else st)"

text \<open>\<^verbatim>\<open>Deno.makeTempDir\<close> makes an empty directory with a name not used before.
  \<^verbatim>\<open>Deno.remove\<close> with \<^verbatim>\<open>recursive\<close> removes the directory it is given, unless the directory
  holds something that cannot be deleted: then the call is rejected and the directory
  stays.\<close>

definition makeTempDir :: "run_state \<Rightarrow> nat \<times> run_state" where
  "makeTempDir st =
     (next_dir st,
      emit (Make_temp_dir (next_dir st))
        (st\<lparr>dirs := insert (next_dir st) (dirs st),
            undeletable := undeletable st - {next_dir st},
            next_dir := Suc (next_dir st)\<rparr>))"

definition remove_recursive :: "nat \<Rightarrow> run_state \<Rightarrow> run_state \<times> (error + unit)" where
  "remove_recursive d st =
     (if d \<in> undeletable st then (emit (Remove_dir d) st, Inl Remove_failed)
      else (emit (Remove_dir d) (st\<lparr>dirs := dirs st - {d}\<rparr>), Inr ()))"

section \<open>The user filter\<close>

text \<open>The condition of \<^verbatim>\<open>evaluate\<close> and \<^verbatim>\<open>upload\<close>:
  \<^verbatim>\<open>users?.every(user => user.toString() !== id) || exceptUsers?.some(user => user.toString() === id)\<close>.
  \<open>users\<close> may be undefined, \<open>exceptUsers\<close> is always a list.\<close>

definition filtered_out :: "config \<Rightarrow> string \<Rightarrow> bool" where
  "filtered_out cfg uid =
     ((case users cfg of None \<Rightarrow> False
       | Some us \<Rightarrow> list_all (\<lambda>user. toString user \<noteq> uid) us)
      \<or> list_ex (\<lambda>user. toString user = uid) (exceptUsers cfg))"

section \<open>Evaluating one criterion\<close>

text \<open>Lines 404-518 of \<^verbatim>\<open>app.ts\<close>.\<close>

definition writePad :: js_string where
  "writePad = map (\<lambda>c. SPACE) (ustr ''[00/00 #0] '')"

definition pad_newlines :: "js_string \<Rightarrow> js_string" where
  "pad_newlines s = concat (map (\<lambda>c. if c = LF then LF # writePad else [c]) s)"

text \<open>The variables shared by the readers: the captured text (\<^verbatim>\<open>output\<close>) and the
  value the chain of console writes resolves to.\<close>

record mux =
  output_text :: js_string
  clean :: bool
  bytesWritten :: nat

text \<open>\<^verbatim>\<open>write(buf)\<close> appends one console write to the chain; the writes of the chain
  happen in the order of the calls, which is the order recorded here.\<close>

definition write_console :: "world \<Rightarrow> bytes \<Rightarrow> mux \<times> run_state \<Rightarrow> mux \<times> run_state" where
  "write_console w buf ms = (case ms of (m, st) \<Rightarrow>
     (m\<lparr>clean := (if buf \<noteq> [] then last buf = 10 else clean m),
        bytesWritten := bytesWritten m + length buf\<rparr>,
      emit (Stdout_write (text_encode w (pad_newlines (text_decode w buf)))) st))"

definition processed_note :: "world \<Rightarrow> nat \<Rightarrow> event" where
  "processed_note w n =
     Stdout_write (text_encode w
       (ustr (''[processed '' @ toString (int n) @ '' bytes from stdout]'')))"

text \<open>One turn of the loop that reads standard output, and one of the loop that reads
  standard error, for the chunk \<open>buf\<close> just read. \<^verbatim>\<open>write(buf)\<close> only appends to the chain, so
  with \<open>verbose\<close> the write of the note, which the loop makes itself, is started before
  the chained write of the chunk.\<close>

definition stdout_read :: "world \<Rightarrow> config \<Rightarrow> bytes \<Rightarrow> mux \<times> run_state \<Rightarrow> mux \<times> run_state" where
  "stdout_read w cfg buf ms =
     (case write_console w buf
             (fst ms, if verbose cfg then emit (processed_note w (length buf)) (snd ms) else snd ms) of
        (m1, st1) \<Rightarrow> (m1\<lparr>output_text := output_text m1 @ text_decode w buf\<rparr>, st1))"

definition stderr_read :: "world \<Rightarrow> config \<Rightarrow> bytes \<Rightarrow> mux \<times> run_state \<Rightarrow> mux \<times> run_state" where
  "stderr_read w cfg buf ms =
     write_console w buf
       (fst ms, if verbose cfg then emit (processed_note w (length buf)) (snd ms) else snd ms)"

text \<open>The two reader loops, run over the reads in the order they return.\<close>

fun drain :: "world \<Rightarrow> config \<Rightarrow> stream_event list \<Rightarrow> mux \<times> run_state
    \<Rightarrow> run_state \<times> (error + mux)" where
  "drain w cfg [] ms = (snd ms, Inr (fst ms))"
| "drain w cfg (Stdout_chunk buf # es) ms = drain w cfg es (stdout_read w cfg buf ms)"
| "drain w cfg (Stderr_chunk buf # es) ms = drain w cfg es (stderr_read w cfg buf ms)"
| "drain w cfg (Read_fault # es) ms = (snd ms, Inl Stream_read_failed)"

text \<open>The input writer settles: the stream is closed after the write, or the rejection is
  caught and the handler is appended to the chain of console writes.\<close>

definition stdin_settled :: "world \<Rightarrow> child_run \<Rightarrow> mux \<times> run_state \<Rightarrow> mux \<times> run_state" where
  "stdin_settled w ch ms = (case ms of (m, st) \<Rightarrow>
     if stdin_error ch then
       (m\<lparr>clean := True\<rparr>,
        emit (Stdout_write (text_encode w writePad))
          (console_log Input_error_dir
            (console_log Failed_writing_process_input
              (emit (Stdout_write [if clean m then 13 else 10]) st))))
     else (m, emit Stdin_close st))"

definition run_options :: "config \<Rightarrow> assignment_data \<Rightarrow> submission_data \<Rightarrow> criteria_data
    \<Rightarrow> nat \<Rightarrow> run_opts" where
  "run_options cfg a s c workDir =
     \<lparr>run_cmd = cmd cfg, cwd = workDir,
      env = [(''ASSIGNMENT_ID'', Env_text (assignment_id a)),
             (''ASSIGNMENT_NAME'', Env_text (assignment_name a)),
             (''USER_ID'', Env_text (user_uid s)),
             (''USER_NAME'', Env_text (user_name s)),
             (''RUBRIC_ID'', Env_text (rubric_id (rubric a))),
             (''RUBRIC_TITLE'', Env_text (title (rubric a))),
             (''RUBRIC_POINTS'', Env_number (pointsPossible (rubric a))),
             (''CRITERIA_ID'', Env_text (criteria_id c)),
             (''CRITERIA_DESCRIPTION'', Env_text (description c)),
             (''CRITERIA_POINTS'', Env_number (criteria_points c))]\<rparr>"

text \<open>\<^verbatim>\<open>await Promise.all([stdinPromise, stdoutPromise, stderrPromise])\<close>: the reads
  before the input writer settles, its settling, the remaining reads. The result is what
  the variables hold when all three are done, or the rejection of a reader.\<close>

definition await_pipes :: "world \<Rightarrow> config \<Rightarrow> child_run \<Rightarrow> mux \<times> run_state
    \<Rightarrow> run_state \<times> (error + mux)" where
  "await_pipes w cfg ch ms =
     (case drain w cfg (take (stdin_settles_after ch) (reads ch)) ms of
        (st1, Inl e) \<Rightarrow> (st1, Inl e)
      | (st1, Inr m1) \<Rightarrow>
          drain w cfg (drop (stdin_settles_after ch) (reads ch)) (stdin_settled w ch (m1, st1)))"

text \<open>The body of the loop over the criteria, for submission \<open>i\<close> and criterion \<open>j\<close>
  (both counted from 0), in three parts: up to \<^verbatim>\<open>Deno.run\<close>; the start of the child, the
  first console write of the chain and the start of the input writer; from
  \<^verbatim>\<open>await writePromise\<close> to the result. The input writer calls \<^verbatim>\<open>write\<close> once, with the whole
  encoded text, and does not look at the number of bytes the call resolves to.\<close>

definition announce_criterion :: "config \<Rightarrow> assignment_data \<Rightarrow> nat \<Rightarrow> submission_data \<Rightarrow> nat
    \<Rightarrow> nat \<Rightarrow> criteria_data \<Rightarrow> run_state \<Rightarrow> run_state" where
  "announce_criterion cfg a i s workDir j c st =
     log_if (verbose cfg) (Executing (run_options cfg a s c workDir))
       (console_log (Testing_for (Suc i) (length (submissions a)) (Suc j) (description c)) st)"

definition spawn :: "child_run \<Rightarrow> run_opts \<Rightarrow> run_state \<Rightarrow> run_state" where
  "spawn ch opts st =
     emit (Run opts)
       (if leaves_undeletable ch then st\<lparr>undeletable := insert (cwd opts) (undeletable st)\<rparr>
        else st)"

definition stdin_written :: "child_run \<Rightarrow> bytes \<Rightarrow> bytes" where
  "stdin_written ch input = (if stdin_error ch then [] else take (stdin_takes ch) input)"

definition start_pipes :: "world \<Rightarrow> child_run \<Rightarrow> run_opts \<Rightarrow> criteria_data \<Rightarrow> run_state
    \<Rightarrow> mux \<times> run_state" where
  "start_pipes w ch opts c st =
     (\<lparr>output_text = [], clean = True, bytesWritten = 0\<rparr>,
      emit (Stdin_write (text_encode w (replace_br (longDescription c)))
                        (stdin_written ch (text_encode w (replace_br (longDescription c)))))
        (emit (Stdout_write (text_encode w writePad))
          (spawn ch opts st)))"

definition criterion_result :: "config \<Rightarrow> child_run \<Rightarrow> criteria_data \<Rightarrow> mux \<Rightarrow> run_state
    \<Rightarrow> run_state \<times> criteria_output_data" where
  "criterion_result cfg ch c m st =
     (let st1 = emit (Stdout_write [if clean m then 13 else 10]) st;
          st2 = log_if (verbose cfg) (Pipes_closed (bytesWritten m)) st1;
          status = process_status_of (exit ch);
          st3 = log_if (verbose cfg) (Output_and_status (output_text m) status) st2
      in (st3,
          \<lparr>points = (if success status then criteria_points c else 0),
           comments = normalize_comments (output_text m)\<rparr>))"

definition evaluate_criterion :: "world \<Rightarrow> config \<Rightarrow> assignment_data \<Rightarrow> nat \<Rightarrow> submission_data
    \<Rightarrow> nat \<Rightarrow> nat \<Rightarrow> criteria_data \<Rightarrow> run_state \<Rightarrow> run_state \<times> (error + criteria_output_data)" where
  "evaluate_criterion w cfg a i s workDir j c st =
     (if \<not> spawn_ok (child w i j) then
        (announce_criterion cfg a i s workDir j c st, Inl Spawn_failed)
      else
        (case await_pipes w cfg (child w i j)
                (start_pipes w (child w i j) (run_options cfg a s c workDir) c
                   (announce_criterion cfg a i s workDir j c st)) of
           (st1, Inl e) \<Rightarrow> (st1, Inl e)
         | (st1, Inr m) \<Rightarrow>
             (case criterion_result cfg (child w i j) c m st1 of (st2, r) \<Rightarrow> (st2, Inr r))))"

fun evaluate_criteria :: "world \<Rightarrow> config \<Rightarrow> assignment_data \<Rightarrow> nat \<Rightarrow> submission_data
    \<Rightarrow> nat \<Rightarrow> nat \<Rightarrow> criteria_data list \<Rightarrow> assessment_output_data \<Rightarrow> run_state
    \<Rightarrow> run_state \<times> (error + assessment_output_data)" where
  "evaluate_criteria w cfg a i s workDir j [] out st = (st, Inr out)"
| "evaluate_criteria w cfg a i s workDir j (c # cs) out st =
     (case evaluate_criterion w cfg a i s workDir j c st of
        (st1, Inl e) \<Rightarrow> (st1, Inl e)
      | (st1, Inr r) \<Rightarrow>
          evaluate_criteria w cfg a i s workDir (Suc j) cs
            (out\<lparr>criteria := AList.update (''criterion_'' @ criteria_id c) r (criteria out)\<rparr>)
            st1)"

section \<open>Evaluating one submission\<close>

text \<open>Lines 350-402 and 519-528 of \<^verbatim>\<open>app.ts\<close>.\<close>

fun write_chunks :: "config \<Rightarrow> nat \<Rightarrow> string \<Rightarrow> bytes list \<Rightarrow> run_state \<Rightarrow> run_state" where
  "write_chunks cfg workDir name [] st = st"
| "write_chunks cfg workDir name (chunk # chunks) st =
     write_chunks cfg workDir name chunks
       (let st1 = emit (Write_file workDir name chunk) st
        in if verbose cfg then emit (Stdout_write chunk) st1 else st1)"

text \<open>The loop over the attachments; \<^verbatim>\<open>displayName.match('/|\/')\<close> finds a slash.\<close>

fun download_attachments :: "world \<Rightarrow> config \<Rightarrow> nat \<Rightarrow> nat \<Rightarrow> nat \<Rightarrow> attachment list
    \<Rightarrow> run_state \<Rightarrow> run_state \<times> (error + unit)" where
  "download_attachments w cfg i workDir k [] st = (st, Inr ())"
| "download_attachments w cfg i workDir k (att # atts) st =
     (if CHR ''/'' \<in> set (display_name att) then (st, Inl (Bsod (display_name att)))
      else
        let st1 = emit (Get_attachment (url att)) st
        in case download w i k of
             Download_rejects \<Rightarrow> (st1, Inl Fetch_failed)
           | Download_response stat bdy \<Rightarrow>
               if stat \<noteq> 200 then (st1, Inl (Unexpected_status stat))
               else (case bdy of
                  None \<Rightarrow> (st1, Inl Got_no_body)
                | Some chunks \<Rightarrow>
                    if \<not> file_open_ok w i k then (st1, Inl Open_failed)
                    else download_attachments w cfg i workDir (Suc k) atts
                           (emit (Close_file workDir (display_name att))
                             (write_chunks cfg workDir (display_name att) chunks
                               (emit (Open_file workDir (display_name att)) st1)))))"

text \<open>The block guarded by \<^verbatim>\<open>try\<close>.\<close>

definition submission_body :: "world \<Rightarrow> config \<Rightarrow> assignment_data \<Rightarrow> nat \<Rightarrow> submission_data
    \<Rightarrow> nat \<Rightarrow> run_state \<Rightarrow> run_state \<times> (error + assessment_output_data)" where
  "submission_body w cfg a i s workDir st =
     (let st1 = emit (Get_submission (user_uid s)) st
      in case rest w i of
           Rest_rejects \<Rightarrow> (st1, Inl Fetch_failed)
         | Rest_attachments atts \<Rightarrow>
             (case download_attachments w cfg i workDir 0 atts st1 of
                (st2, Inl e) \<Rightarrow> (st2, Inl e)
              | (st2, Inr u) \<Rightarrow>
                  evaluate_criteria w cfg a i s workDir 0 (rubric_criteria (rubric a))
                    \<lparr>user_id = user_uid s, assessment_type = ''grading'', criteria = []\<rparr> st2))"

text \<open>The body of the loop over the submissions: \<open>Inr None\<close> is \<^verbatim>\<open>continue\<close>, \<open>Inr (Some r)\<close>
  the assessment pushed to the list, \<open>Inl e\<close> the error thrown out of the loop. The
  \<^verbatim>\<open>finally\<close> block runs whatever the guarded block returned; if the removal in it is
  rejected, that error is thrown in place of what the guarded block returned.\<close>

definition evaluate_submission :: "world \<Rightarrow> config \<Rightarrow> assignment_data \<Rightarrow> nat \<Rightarrow> submission_data
    \<Rightarrow> run_state \<Rightarrow> run_state \<times> (error + assessment_output_data option)" where
  "evaluate_submission w cfg a i s st =
     (if filtered_out cfg (user_uid s) then
        (log_if (verbose cfg)
           (Skipping_submission (Suc i) (length (submissions a)) (submission_id s) (user_name s)) st,
         Inr None)
      else
        let st1 = console_log
              (Evaluating_submission (Suc i) (length (submissions a)) (submission_id s) (user_name s)) st
        in if \<not> mktemp_ok w i then (st1, Inl Mktemp_failed)
        else (case makeTempDir st1 of (workDir, st2) \<Rightarrow>
          (case submission_body w cfg a i s workDir st2 of (st3, r) \<Rightarrow>
             (case remove_recursive workDir (log_if (verbose cfg) Cleaning_up st3) of
                (st4, Inl e) \<Rightarrow> (st4, Inl e)
              | (st4, Inr u) \<Rightarrow>
                  (case r of
                     Inl e \<Rightarrow> (st4, Inl e)
                   | Inr out \<Rightarrow>
                       (log_if (verbose cfg) (Assessment_dump out) st4, Inr (Some out)))))))"

section \<open>\<^verbatim>\<open>evaluate\<close>\<close>

text \<open>Lines 337-543 of \<^verbatim>\<open>app.ts\<close>: the loop over the submissions, which an error leaves at
  once, and the dataset that is returned when the loop ends.\<close>

fun evaluate_submissions :: "world \<Rightarrow> config \<Rightarrow> assignment_data \<Rightarrow> nat \<Rightarrow> submission_data list
    \<Rightarrow> assessment_output_data list \<Rightarrow> run_state
    \<Rightarrow> run_state \<times> (error + assessment_output_data list)" where
  "evaluate_submissions w cfg a i [] acc st = (st, Inr acc)"
| "evaluate_submissions w cfg a i (s # ss) acc st =
     (case evaluate_submission w cfg a i s st of
        (st1, Inl e) \<Rightarrow> (st1, Inl e)
      | (st1, Inr None) \<Rightarrow> evaluate_submissions w cfg a (Suc i) ss acc st1
      | (st1, Inr (Some out)) \<Rightarrow> evaluate_submissions w cfg a (Suc i) ss (acc @ [out]) st1)"

definition evaluate :: "world \<Rightarrow> config \<Rightarrow> assignment_data \<Rightarrow> int option \<Rightarrow> run_state
    \<Rightarrow> run_state \<times> (error + intermediate_data)" where
  "evaluate w cfg a rubricAssociationId' st =
     (case evaluate_submissions w cfg a 0 (submissions a) [] st of
        (st1, Inl e) \<Rightarrow> (st1, Inl e)
      | (st1, Inr l) \<Rightarrow>
          let intermediateData =
                \<lparr>canvas = cfg_canvas cfg, course = course_id a, assignment = cfg_assignment cfg,
                 rubricAssociationId = rubricAssociationId', assessmentOutputDataList = l\<rparr>
          in (log_if (verbose cfg) (Done_evaluating intermediateData)
                (log_if (verbose cfg) Empty_line st1),
              Inr intermediateData))"

section \<open>\<^verbatim>\<open>upload\<close>\<close>

text \<open>Lines 545-608 of \<^verbatim>\<open>app.ts\<close>. A result is the empty object of a dry run, or the answer
  of the server, of which the program reads whether it has \<^verbatim>\<open>errors\<close>.\<close>

text \<open>The callback of \<^verbatim>\<open>filter\<close>, run over the list: it reports each assessment it drops.\<close>

fun filter_assessments :: "config \<Rightarrow> assessment_output_data list \<Rightarrow> run_state
    \<Rightarrow> assessment_output_data list \<times> run_state" where
  "filter_assessments cfg [] st = ([], st)"
| "filter_assessments cfg (out # outs) st =
     (if filtered_out cfg (user_id out) then
        filter_assessments cfg outs (console_log (Filtered_out_user (user_id out)) st)
      else (case filter_assessments cfg outs st of (outs', st') \<Rightarrow> (out # outs', st')))"

text \<open>
  \<^verbatim>\<open>Object.values(assessmentOutputData).map(criteria => criteria.points || 0).reduce((a, b) => a + b)\<close>:
  the values are the two strings and then the criterion results; a string has no
  \<^verbatim>\<open>points\<close>, so it counts 0. The list is never empty, and \<^verbatim>\<open>reduce\<close> adds its members from
  the left with the addition of the runtime.
\<close>

datatype js_value = JString string | JCriteria criteria_output_data

definition Object_values :: "assessment_output_data \<Rightarrow> js_value list" where
  "Object_values out =
     JString (user_id out) # JString (assessment_type out) # map (\<lambda>kv. JCriteria (snd kv)) (criteria out)"

fun points_or_0 :: "js_value \<Rightarrow> real" where
  "points_or_0 (JString s) = 0"
| "points_or_0 (JCriteria c) = (if points c = 0 then 0 else points c)"

fun reduce_plus :: "(real \<Rightarrow> real \<Rightarrow> real) \<Rightarrow> real list \<Rightarrow> real" where
  "reduce_plus add [] = 0"
| "reduce_plus add (x # xs) = foldl (\<lambda>a b. add a b) x xs"

definition would_upload_points :: "world \<Rightarrow> assessment_output_data \<Rightarrow> real" where
  "would_upload_points w out = reduce_plus (number_add w) (map points_or_0 (Object_values out))"

definition stdout_text :: "world \<Rightarrow> string \<Rightarrow> event" where
  "stdout_text w s = Stdout_write (text_encode w (ustr s))"

text \<open>The loop over the assessments; \<open>k\<close> counts them. The accumulator holds \<^verbatim>\<open>errors\<close>
  and \<^verbatim>\<open>results\<close>.\<close>

fun upload_each :: "world \<Rightarrow> config \<Rightarrow> intermediate_data \<Rightarrow> nat \<Rightarrow> assessment_output_data list
    \<Rightarrow> upload_result list \<times> upload_result list \<Rightarrow> run_state
    \<Rightarrow> run_state \<times> (error + upload_result list \<times> upload_result list)" where
  "upload_each w cfg d k [] acc st = (st, Inr acc)"
| "upload_each w cfg d k (out # outs) (errors, results) st =
     (let st1 = log_if (verbose cfg) (Url_and_assessment (course d) (rubricAssociationId d) out) st
      in case (if dryRun cfg then
                 (console_log (Would_upload (would_upload_points w out) (user_id out)) st1,
                  Inr Dry_run_result)
               else
                 (emit (Post_assessment (course d) (rubricAssociationId d) out) st1,
                  case post w k of Post_rejects \<Rightarrow> Inl Post_failed | Post_json r \<Rightarrow> Inr r)) of
           (st2, Inl e) \<Rightarrow> (st2, Inl e)
         | (st2, Inr result) \<Rightarrow>
             if result_errors result then
               upload_each w cfg d (Suc k) outs (errors @ [result], results @ [result])
                 (emit (stdout_text w ''E'') st2)
             else
               upload_each w cfg d (Suc k) outs (errors, results @ [result])
                 (if \<not> dryRun cfg then emit (stdout_text w ''#'') st2 else st2))"

primrec emit_times :: "nat \<Rightarrow> event \<Rightarrow> run_state \<Rightarrow> run_state" where
  "emit_times 0 e st = st"
| "emit_times (Suc n) e st = emit_times n e (emit e st)"

text \<open>\<^verbatim>\<open>upload\<close> assigns to a field of its argument: the caller's object after the call is
  the second component of the result, also when a post throws.\<close>

definition upload :: "world \<Rightarrow> config \<Rightarrow> intermediate_data \<Rightarrow> run_state
    \<Rightarrow> run_state \<times> intermediate_data \<times> (error + upload_result list)" where
  "upload w cfg data0 st =
     (case filter_assessments cfg (assessmentOutputDataList data0) st of (l, st1) \<Rightarrow>
        let d = data0\<lparr>assessmentOutputDataList := l\<rparr>;
            st2 = log_if (verbose cfg) (Uploading_assessments (rubricAssociationId d)) st1;
            st3 = emit_times (length l) (stdout_text w ''_'') st2;
            st4 = emit (stdout_text w ''.'') st3;
            st5 = console_log Empty_line st4
        in (case upload_each w cfg d 0 l ([], []) st5 of
             (st6, Inl e) \<Rightarrow> (st6, d, Inl e)
           | (st6, Inr (errors, results)) \<Rightarrow>
               let st7 = (if \<not> dryRun cfg then emit (stdout_text w ''|'') st6 else st6);
                   st8 = console_log Empty_line st7;
                   st9 = log_if (verbose cfg) (Results_dir results) st8;
                   st10 = fold (\<lambda>e. console_log (Error_dir e)) errors st9;
                   st11 = console_log (Upload_finished (length errors) (length l)) st10
               in (st11, d, Inr results)))"

section \<open>Notions used to state the properties\<close>

text \<open>The chunks of standard output among the reads, in order.\<close>

fun stdout_chunks :: "stream_event list \<Rightarrow> bytes list" where
  "stdout_chunks [] = []"
| "stdout_chunks (Stdout_chunk buf # es) = buf # stdout_chunks es"
| "stdout_chunks (Stderr_chunk buf # es) = stdout_chunks es"
| "stdout_chunks (Read_fault # es) = stdout_chunks es"

text \<open>Several events at once.\<close>

definition emits :: "event list \<Rightarrow> run_state \<Rightarrow> run_state" where
  "emits es st = st\<lparr>trace := trace st @ es\<rparr>"

text \<open>The calls on the child's input stream, and the raw writes to the console.\<close>

fun stdin_calls :: "event list \<Rightarrow> event list" where
  "stdin_calls [] = []"
| "stdin_calls (Stdin_write given written # es) = Stdin_write given written # stdin_calls es"
| "stdin_calls (Stdin_close # es) = Stdin_close # stdin_calls es"
| "stdin_calls (e # es) = stdin_calls es"

fun stdout_writes :: "event list \<Rightarrow> bytes list" where
  "stdout_writes [] = []"
| "stdout_writes (Stdout_write b # es) = b # stdout_writes es"
| "stdout_writes (e # es) = stdout_writes es"

fun is_post :: "event \<Rightarrow> bool" where
  "is_post (Post_assessment c r out) = True"
| "is_post e = False"

text \<open>A download that fails: a status other than 200, or a response without a body.\<close>

fun download_fails :: "download_response \<Rightarrow> bool" where
  "download_fails Download_rejects = False"
| "download_fails (Download_response stat bdy) = (stat \<noteq> 200 \<or> bdy = None)"

text \<open>The assessments \<^verbatim>\<open>upload\<close> goes on with, and what it does before it turns to them,
  in a dry run as in a real upload: it reports the assessments it drops and draws one
  underscore for each one it keeps and a dot; with \<open>verbose\<close>, it names the rubric
  association in between.\<close>

definition kept_assessments :: "config \<Rightarrow> intermediate_data \<Rightarrow> assessment_output_data list" where
  "kept_assessments cfg d =
     filter (\<lambda>out. \<not> filtered_out cfg (user_id out)) (assessmentOutputDataList d)"

definition upload_header_events :: "world \<Rightarrow> config \<Rightarrow> intermediate_data \<Rightarrow> event list" where
  "upload_header_events w cfg d =
     map (\<lambda>out. Console_log (Filtered_out_user (user_id out)))
         (filter (\<lambda>out. filtered_out cfg (user_id out)) (assessmentOutputDataList d))
     @ (if verbose cfg then [Console_log (Uploading_assessments (rubricAssociationId d))] else [])
     @ replicate (length (kept_assessments cfg d)) (stdout_text w ''_'')
     @ [stdout_text w ''.'', Console_log Empty_line]"

text \<open>What a dry run of \<^verbatim>\<open>upload\<close> does, in order: the above, then for each kept assessment
  the message with the points it would upload, and the summary with no failure; with
  \<open>verbose\<close>, the diagnostic messages in between.\<close>

definition dry_run_events :: "world \<Rightarrow> config \<Rightarrow> intermediate_data \<Rightarrow> event list" where
  "dry_run_events w cfg d =
     upload_header_events w cfg d
     @ concat (map (\<lambda>out.
          (if verbose cfg
           then [Console_log (Url_and_assessment (course d) (rubricAssociationId d) out)] else [])
          @ [Console_log (Would_upload (would_upload_points w out) (user_id out))])
         (kept_assessments cfg d))
     @ [Console_log Empty_line]
     @ (if verbose cfg
        then [Console_log (Results_dir (replicate (length (kept_assessments cfg d)) Dry_run_result))]
        else [])
     @ [Console_log (Upload_finished 0 (length (kept_assessments cfg d)))]"

section \<open>Example runs\<close>

text \<open>
  One assignment with a rubric of two criteria (3 points and 2 points) and one submission
  by user 42 with one attachment. The test command prints \<open>hi\<close> in two chunks with a
  chunk of standard error in between, exits with 0 for the first criterion and with 1 for
  the second; for the second criterion writing its input fails. A write on the child's
  input moves up to 65536 bytes. The codec of the example maps bytes to code units one to
  one, as UTF-8 does on ASCII text, and its addition is that of the real numbers, which
  is the addition of doubles on small whole numbers.
\<close>

definition example_child :: "nat \<Rightarrow> child_run" where
  "example_child j =
     \<lparr>spawn_ok = True,
      reads = [Stdout_chunk [104], Stderr_chunk [33], Stdout_chunk [105, 10]],
      stdin_error = (j = 1), stdin_settles_after = 1, stdin_takes = 65536,
      leaves_undeletable = False, exit = Exited (int j)\<rparr>"

definition example_world :: world where
  "example_world =
     \<lparr>text_decode = map ucast, text_encode = map ucast,
      number_add = (\<lambda>x y. x + y),
      mktemp_ok = (\<lambda>i. True),
      rest = (\<lambda>i. Rest_attachments [\<lparr>display_name = ''a.c'', url = ''u''\<rparr>]),
      download = (\<lambda>i k. Download_response 200 (Some [[1, 2]])),
      file_open_ok = (\<lambda>i k. True),
      child = (\<lambda>i j. example_child j),
      post = (\<lambda>k. Post_json (Server_result False))\<rparr>"

definition example_config :: config where
  "example_config =
     \<lparr>verbose = False, dryRun = False, cfg_canvas = ''c'', cfg_assignment = 7,
      users = None, exceptUsers = [], cmd = ''bash''\<rparr>"

definition example_criteria :: "criteria_data list" where
  "example_criteria =
     [\<lparr>criteria_id = ''_1'', description = ''compiles'',
       longDescription = ustr ''make<br/>'' @ [CR, LF] @ ustr ''run'', criteria_points = 3\<rparr>,
      \<lparr>criteria_id = ''_2'', description = ''runs'',
       longDescription = ustr ''run'', criteria_points = 2\<rparr>]"

definition example_submission :: "string \<Rightarrow> submission_data" where
  "example_submission uid = \<lparr>submission_id = ''s'' @ uid, user_uid = uid, user_name = ''n''\<rparr>"

definition example_assignment :: "string list \<Rightarrow> assignment_data" where
  "example_assignment uids =
     \<lparr>assignment_id = ''7'', assignment_name = ''hw'', course_id = 1,
      rubric = \<lparr>rubric_id = ''r'', title = ''t'', rubric_criteria = example_criteria,
                pointsPossible = 5\<rparr>,
      submissions = map example_submission uids\<rparr>"

definition initial_state :: run_state where
  "initial_state = \<lparr>trace = [], dirs = {}, undeletable = {}, next_dir = 0\<rparr>"

text \<open>The assessment the example run produces for user 42, and a second one.\<close>

definition example_assessment :: "string \<Rightarrow> assessment_output_data" where
  "example_assessment uid =
     \<lparr>user_id = uid, assessment_type = ''grading'',
      criteria = [(''criterion__1'', \<lparr>points = 3, comments = ustr ''hi'' @ [LF]\<rparr>),
                  (''criterion__2'', \<lparr>points = 0, comments = ustr ''hi'' @ [LF]\<rparr>)]\<rparr>"

definition example_dataset :: "string list \<Rightarrow> intermediate_data" where
  "example_dataset uids =
     \<lparr>canvas = ''c'', course = 1, assignment = 7, rubricAssociationId = Some 9,
      assessmentOutputDataList = map example_assessment uids\<rparr>"

text \<open>The same world, except that the download for the first submission answers 404.\<close>

definition failing_world :: world where
  "failing_world =
     example_world\<lparr>download := (\<lambda>i k. if i = 0 then Download_response 404 None
                                        else Download_response 200 (Some [[1, 2]]))\<rparr>"

text \<open>The same world with the decoder of UTF-8, and a test command that prints the three
  bytes of \<open>h\<close> and of U+00E9: each with a write of its own, so that each is read on its
  own, or with one write, so that they are read together.\<close>

definition split_character_world :: world where
  "split_character_world =
     example_world\<lparr>text_decode := utf8_decode,
       child := (\<lambda>i j. (example_child j)
          \<lparr>reads := [Stdout_chunk [0x68], Stdout_chunk [0xC3], Stdout_chunk [0xA9]]\<rparr>)\<rparr>"

definition whole_character_world :: world where
  "whole_character_world =
     example_world\<lparr>text_decode := utf8_decode,
       child := (\<lambda>i j. (example_child j)\<lparr>reads := [Stdout_chunk [0x68, 0xC3, 0xA9]]\<rparr>)\<rparr>"

text \<open>A criterion whose long description is the letter \<open>a\<close> 200000 times.\<close>

definition long_description :: js_string where
  "long_description = replicate 200000 0x61"

definition long_criterion :: criteria_data where
  "long_criterion =
     \<lparr>criteria_id = ''_1'', description = ''long'', longDescription = long_description,
      criteria_points = 3\<rparr>"

text \<open>The example world with a test command that leaves something in its working directory
  that cannot be deleted.\<close>

definition littering_world :: world where
  "littering_world =
     example_world\<lparr>child := (\<lambda>i j. (example_child j)\<lparr>leaves_undeletable := True\<rparr>)\<rparr>"

section \<open>The state through the operations\<close>

lemma emit_emits: "emit e st = emits [e] st"
  by (simp add: emit_def emits_def)

lemma emits_emits [simp]: "emits ys (emits xs st) = emits (xs @ ys) st"
  by (simp add: emits_def)

lemma emits_Nil [simp]: "emits [] st = st"
  by (simp add: emits_def)

lemma trace_emits [simp]: "trace (emits es st) = trace st @ es"
  by (simp add: emits_def)

lemma dirs_emits [simp]: "dirs (emits es st) = dirs st"
  by (simp add: emits_def)

lemma next_dir_emits [simp]: "next_dir (emits es st) = next_dir st"
  by (simp add: emits_def)

lemma undeletable_emits [simp]: "undeletable (emits es st) = undeletable st"
  by (simp add: emits_def)

lemma console_log_emits: "console_log m st = emits [Console_log m] st"
  by (simp add: console_log_def emit_emits)

lemma log_if_emits: "log_if b m st = emits (if b then [Console_log m] else []) st"
  by (simp add: log_if_def console_log_emits)

lemmas to_emits = emit_emits console_log_emits log_if_emits

lemma stdin_calls_append [simp]: "stdin_calls (xs @ ys) = stdin_calls xs @ stdin_calls ys"
  by (induction xs rule: stdin_calls.induct) simp_all

lemma stdout_chunks_append [simp]: "stdout_chunks (xs @ ys) = stdout_chunks xs @ stdout_chunks ys"
  by (induction xs rule: stdout_chunks.induct) simp_all

lemma stdout_chunks_take_drop:
  "stdout_chunks (take k es) @ stdout_chunks (drop k es) = stdout_chunks es"
  by (simp flip: stdout_chunks_append)

section \<open>Draining the pipes\<close>

text \<open>Each turn of a reader loop only writes to the console.\<close>

lemma stdout_read_eq:
  "stdout_read w cfg buf (m, st) =
     (m\<lparr>clean := (if buf \<noteq> [] then last buf = 10 else clean m),
        bytesWritten := bytesWritten m + length buf,
        output_text := output_text m @ text_decode w buf\<rparr>,
      emits ((if verbose cfg then [processed_note w (length buf)] else [])
             @ [Stdout_write (text_encode w (pad_newlines (text_decode w buf)))]) st)"
  by (simp add: stdout_read_def write_console_def to_emits)

lemma stderr_read_eq:
  "stderr_read w cfg buf (m, st) =
     (m\<lparr>clean := (if buf \<noteq> [] then last buf = 10 else clean m),
        bytesWritten := bytesWritten m + length buf\<rparr>,
      emits ((if verbose cfg then [processed_note w (length buf)] else [])
             @ [Stdout_write (text_encode w (pad_newlines (text_decode w buf)))]) st)"
  by (simp add: stderr_read_def write_console_def to_emits)


lemma read_steps:
  "dirs (snd (stdout_read w cfg buf ms)) = dirs (snd ms)"
  "dirs (snd (stderr_read w cfg buf ms)) = dirs (snd ms)"
  "prefix (trace (snd ms)) (trace (snd (stdout_read w cfg buf ms)))"
  "prefix (trace (snd ms)) (trace (snd (stderr_read w cfg buf ms)))"
  "stdin_calls (trace (snd (stdout_read w cfg buf ms))) = stdin_calls (trace (snd ms))"
  "stdin_calls (trace (snd (stderr_read w cfg buf ms))) = stdin_calls (trace (snd ms))"
  "output_text (fst (stdout_read w cfg buf ms)) = output_text (fst ms) @ text_decode w buf"
  "output_text (fst (stderr_read w cfg buf ms)) = output_text (fst ms)"
  by (cases ms; simp add: stdout_read_eq stderr_read_eq processed_note_def)+

lemma read_steps_undeletable:
  "undeletable (snd (stdout_read w cfg buf ms)) = undeletable (snd ms)"
  "undeletable (snd (stderr_read w cfg buf ms)) = undeletable (snd ms)"
  by (cases ms; simp add: stdout_read_eq stderr_read_eq)+

lemma drain_dirs: "dirs (fst (drain w cfg es ms)) = dirs (snd ms)"
  by (induction w cfg es ms rule: drain.induct) (simp_all add: read_steps)

lemma drain_undeletable: "undeletable (fst (drain w cfg es ms)) = undeletable (snd ms)"
  by (induction w cfg es ms rule: drain.induct) (simp_all add: read_steps_undeletable)

lemma drain_prefix: "prefix (trace (snd ms)) (trace (fst (drain w cfg es ms)))"
proof (induction w cfg es ms rule: drain.induct)
  case (2 w cfg buf es ms)
  from prefix_order.trans [OF read_steps(3) 2] show ?case by simp
next
  case (3 w cfg buf es ms)
  from prefix_order.trans [OF read_steps(4) 3] show ?case by simp
qed simp_all

lemma drain_stdin_calls:
  "stdin_calls (trace (fst (drain w cfg es ms))) = stdin_calls (trace (snd ms))"
  by (induction w cfg es ms rule: drain.induct) (simp_all add: read_steps)

lemma drain_returns:
  "Read_fault \<notin> set es \<Longrightarrow> \<exists>m'. snd (drain w cfg es ms) = Inr m'"
  by (induction w cfg es ms rule: drain.induct) simp_all

lemma drain_fault:
  "snd (drain w cfg es ms) = Inl e \<Longrightarrow> Read_fault \<in> set es"
  by (induction w cfg es ms rule: drain.induct) simp_all

lemma drain_output:
  "snd (drain w cfg es ms) = Inr m' \<Longrightarrow>
     output_text m' = output_text (fst ms) @ concat (map (text_decode w) (stdout_chunks es))"
  by (induction w cfg es ms rule: drain.induct) (simp_all add: read_steps)


section \<open>Waiting for the three pipes\<close>

lemma stdin_settled_eq:
  "stdin_settled w ch (m, st) =
     (if stdin_error ch then
        (m\<lparr>clean := True\<rparr>,
         emits [Stdout_write [if clean m then 13 else 10],
                Console_log Failed_writing_process_input, Console_log Input_error_dir,
                Stdout_write (text_encode w writePad)] st)
      else (m, emits [Stdin_close] st))"
  by (simp add: stdin_settled_def to_emits)

lemma stdin_settled_steps:
  "dirs (snd (stdin_settled w ch ms)) = dirs (snd ms)"
  "prefix (trace (snd ms)) (trace (snd (stdin_settled w ch ms)))"
  "stdin_calls (trace (snd (stdin_settled w ch ms))) =
     stdin_calls (trace (snd ms)) @ (if stdin_error ch then [] else [Stdin_close])"
  "output_text (fst (stdin_settled w ch ms)) = output_text (fst ms)"
  "stdin_error ch \<Longrightarrow>
     Console_log Failed_writing_process_input \<in> set (trace (snd (stdin_settled w ch ms)))"
  by (cases ms; simp add: stdin_settled_eq)+

text \<open>Either the first part of the reads fails, or the readers go on after the input
  writer has settled.\<close>

lemma await_pipes_cases:
  obtains (early) e where
      "drain w cfg (take (stdin_settles_after ch) (reads ch)) ms
         = (fst (await_pipes w cfg ch ms), Inl e)"
      "snd (await_pipes w cfg ch ms) = Inl e"
  | (late) m1 st1 where
      "drain w cfg (take (stdin_settles_after ch) (reads ch)) ms = (st1, Inr m1)"
      "await_pipes w cfg ch ms =
         drain w cfg (drop (stdin_settles_after ch) (reads ch)) (stdin_settled w ch (m1, st1))"
proof (cases "drain w cfg (take (stdin_settles_after ch) (reads ch)) ms")
  case (Pair st1 r1)
  show ?thesis
  proof (cases r1)
    case (Inl e)
    with Pair early show ?thesis by (simp add: await_pipes_def)
  next
    case (Inr m1)
    with Pair late show ?thesis by (simp add: await_pipes_def)
  qed
qed

lemma await_pipes_dirs: "dirs (fst (await_pipes w cfg ch ms)) = dirs (snd ms)"
proof (cases rule: await_pipes_cases [of w cfg ch ms])
  case (early e)
  from drain_dirs [of w cfg "take (stdin_settles_after ch) (reads ch)" ms]
  show ?thesis by (simp add: early(1))
next
  case (late m1 st1)
  from drain_dirs [of w cfg "take (stdin_settles_after ch) (reads ch)" ms]
  have "dirs st1 = dirs (snd ms)" by (simp add: late(1))
  then show ?thesis
    by (simp add: late(2) drain_dirs stdin_settled_steps)
qed

lemma await_pipes_dirsD: "await_pipes w cfg ch ms = (st', r) \<Longrightarrow> dirs st' = dirs (snd ms)"
  using await_pipes_dirs [of w cfg ch ms] by simp

lemma stdin_settled_undeletable:
  "undeletable (snd (stdin_settled w ch ms)) = undeletable (snd ms)"
  by (cases ms) (simp add: stdin_settled_eq)

lemma await_pipes_undeletable:
  "undeletable (fst (await_pipes w cfg ch ms)) = undeletable (snd ms)"
proof (cases rule: await_pipes_cases [of w cfg ch ms])
  case (early e)
  from drain_undeletable [of w cfg "take (stdin_settles_after ch) (reads ch)" ms]
  show ?thesis by (simp add: early(1))
next
  case (late m1 st1)
  from drain_undeletable [of w cfg "take (stdin_settles_after ch) (reads ch)" ms]
  have "undeletable st1 = undeletable (snd ms)" by (simp add: late(1))
  then show ?thesis
    by (simp add: late(2) drain_undeletable stdin_settled_undeletable)
qed

lemma await_pipes_undeletableD:
  "await_pipes w cfg ch ms = (st', r) \<Longrightarrow> undeletable st' = undeletable (snd ms)"
  using await_pipes_undeletable [of w cfg ch ms] by simp

lemma await_pipes_prefix: "prefix (trace (snd ms)) (trace (fst (await_pipes w cfg ch ms)))"
proof (cases rule: await_pipes_cases [of w cfg ch ms])
  case (early e)
  from drain_prefix [of ms w cfg "take (stdin_settles_after ch) (reads ch)"]
  show ?thesis by (simp add: early(1))
next
  case (late m1 st1)
  from drain_prefix [of ms w cfg "take (stdin_settles_after ch) (reads ch)"]
  have 1: "prefix (trace (snd ms)) (trace st1)" by (simp add: late(1))
  have 2: "prefix (trace st1) (trace (snd (stdin_settled w ch (m1, st1))))"
    using stdin_settled_steps(2) [of "(m1, st1)" w ch] by simp
  have 3: "prefix (trace (snd (stdin_settled w ch (m1, st1)))) (trace (fst (await_pipes w cfg ch ms)))"
    by (simp add: late(2) drain_prefix)
  from 1 2 3 show ?thesis by (meson prefix_order.trans)
qed

lemma await_pipes_returns:
  assumes "Read_fault \<notin> set (reads ch)"
  shows "\<exists>m'. snd (await_pipes w cfg ch ms) = Inr m'"
proof (cases rule: await_pipes_cases [of w cfg ch ms])
  case (early e)
  then have "snd (drain w cfg (take (stdin_settles_after ch) (reads ch)) ms) = Inl e" by simp
  then have "Read_fault \<in> set (take (stdin_settles_after ch) (reads ch))" by (rule drain_fault)
  then have "Read_fault \<in> set (reads ch)" by (rule in_set_takeD)
  with assms show ?thesis by simp
next
  case (late m1 st1)
  have "Read_fault \<notin> set (drop (stdin_settles_after ch) (reads ch))"
    using assms by (auto dest: in_set_dropD)
  then show ?thesis by (simp add: late(2) drain_returns)
qed

lemma await_pipes_fault:
  assumes "snd (await_pipes w cfg ch ms) = Inl e"
  shows "Read_fault \<in> set (reads ch)"
proof (rule ccontr)
  assume "Read_fault \<notin> set (reads ch)"
  from await_pipes_returns [OF this, of w cfg ms] assms show False by simp
qed

lemma await_pipes_output:
  assumes "snd (await_pipes w cfg ch ms) = Inr m'"
  shows "output_text m' = output_text (fst ms) @ concat (map (text_decode w) (stdout_chunks (reads ch)))"
proof (cases rule: await_pipes_cases [of w cfg ch ms])
  case (early e)
  with assms show ?thesis by simp
next
  case (late m1 st1)
  let ?k = "stdin_settles_after ch"
  have "snd (drain w cfg (take ?k (reads ch)) ms) = Inr m1" by (simp add: late(1))
  from drain_output [OF this]
  have 1: "output_text m1 = output_text (fst ms) @ concat (map (text_decode w) (stdout_chunks (take ?k (reads ch))))" .
  have "snd (drain w cfg (drop ?k (reads ch)) (stdin_settled w ch (m1, st1))) = Inr m'"
    using assms by (simp add: late(2))
  from drain_output [OF this]
  have "output_text m' = output_text m1 @ concat (map (text_decode w) (stdout_chunks (drop ?k (reads ch))))"
    by (simp add: stdin_settled_steps)
  with 1 have "output_text m' = output_text (fst ms)
      @ concat (map (text_decode w) (stdout_chunks (take ?k (reads ch)) @ stdout_chunks (drop ?k (reads ch))))"
    by simp
  then show ?thesis by (simp only: stdout_chunks_take_drop)
qed

lemma await_pipes_stdin_calls:
  assumes "snd (await_pipes w cfg ch ms) = Inr m'"
  shows "stdin_calls (trace (fst (await_pipes w cfg ch ms))) =
           stdin_calls (trace (snd ms)) @ (if stdin_error ch then [] else [Stdin_close])"
proof (cases rule: await_pipes_cases [of w cfg ch ms])
  case (early e)
  with assms show ?thesis by simp
next
  case (late m1 st1)
  from drain_stdin_calls [of w cfg "take (stdin_settles_after ch) (reads ch)" ms]
  have "stdin_calls (trace st1) = stdin_calls (trace (snd ms))" by (simp add: late(1))
  then show ?thesis
    by (simp add: late(2) drain_stdin_calls stdin_settled_steps)
qed

lemma await_pipes_warns:
  assumes "snd (await_pipes w cfg ch ms) = Inr m'" and "stdin_error ch"
  shows "Console_log Failed_writing_process_input \<in> set (trace (fst (await_pipes w cfg ch ms)))"
proof (cases rule: await_pipes_cases [of w cfg ch ms])
  case (early e)
  with assms show ?thesis by simp
next
  case (late m1 st1)
  have "Console_log Failed_writing_process_input \<in> set (trace (snd (stdin_settled w ch (m1, st1))))"
    using assms(2) by (rule stdin_settled_steps)
  moreover have "prefix (trace (snd (stdin_settled w ch (m1, st1)))) (trace (fst (await_pipes w cfg ch ms)))"
    by (simp add: late(2) drain_prefix)
  ultimately show ?thesis by (auto dest: set_mono_prefix)
qed


section \<open>One criterion\<close>

lemma announce_criterion_eq:
  "announce_criterion cfg a i s workDir j c st =
     emits (Console_log (Testing_for (Suc i) (length (submissions a)) (Suc j) (description c))
            # (if verbose cfg then [Console_log (Executing (run_options cfg a s c workDir))] else [])) st"
  by (simp add: announce_criterion_def to_emits)

lemma start_pipes_eq:
  "start_pipes w ch opts c st =
     (\<lparr>output_text = [], clean = True, bytesWritten = 0\<rparr>,
      emits [Run opts, Stdout_write (text_encode w writePad),
             Stdin_write (text_encode w (replace_br (longDescription c)))
                         (stdin_written ch (text_encode w (replace_br (longDescription c))))]
        (if leaves_undeletable ch then st\<lparr>undeletable := insert (cwd opts) (undeletable st)\<rparr>
         else st))"
  by (simp add: start_pipes_def spawn_def to_emits)

lemma start_pipes_steps:
  "dirs (snd (start_pipes w ch opts c st)) = dirs st"
  "next_dir (snd (start_pipes w ch opts c st)) = next_dir st"
  "undeletable (snd (start_pipes w ch opts c st))
     = (if leaves_undeletable ch then insert (cwd opts) (undeletable st) else undeletable st)"
  "output_text (fst (start_pipes w ch opts c st)) = []"
  "prefix (trace st) (trace (snd (start_pipes w ch opts c st)))"
  "stdin_calls (trace (snd (start_pipes w ch opts c st)))
     = stdin_calls (trace st)
       @ [Stdin_write (text_encode w (replace_br (longDescription c)))
                      (stdin_written ch (text_encode w (replace_br (longDescription c))))]"
  by (simp_all add: start_pipes_eq)

lemma criterion_result_eq:
  "criterion_result cfg ch c m st =
     (emits (Stdout_write [if clean m then 13 else 10]
             # (if verbose cfg
                then [Console_log (Pipes_closed (bytesWritten m)),
                      Console_log (Output_and_status (output_text m) (process_status_of (exit ch)))]
                else [])) st,
      \<lparr>points = (if success (process_status_of (exit ch)) then criteria_points c else 0),
       comments = normalize_comments (output_text m)\<rparr>)"
  by (simp add: criterion_result_def Let_def to_emits)

lemma success_iff: "success (process_status_of x) \<longleftrightarrow> x = Exited 0"
  by (cases x) simp_all

text \<open>The three ways through the body of the criteria loop.\<close>

lemma evaluate_criterion_cases:
  obtains (no_spawn)
      "\<not> spawn_ok (child w i j)"
      "evaluate_criterion w cfg a i s workDir j c st
         = (announce_criterion cfg a i s workDir j c st, Inl Spawn_failed)"
  | (fault) e st1 where
      "spawn_ok (child w i j)"
      "await_pipes w cfg (child w i j)
         (start_pipes w (child w i j) (run_options cfg a s c workDir) c
            (announce_criterion cfg a i s workDir j c st))
         = (st1, Inl e)"
      "evaluate_criterion w cfg a i s workDir j c st = (st1, Inl e)"
  | (finished) m st1 where
      "spawn_ok (child w i j)"
      "await_pipes w cfg (child w i j)
         (start_pipes w (child w i j) (run_options cfg a s c workDir) c
            (announce_criterion cfg a i s workDir j c st))
         = (st1, Inr m)"
      "evaluate_criterion w cfg a i s workDir j c st
         = (fst (criterion_result cfg (child w i j) c m st1),
            Inr (snd (criterion_result cfg (child w i j) c m st1)))"
proof (cases "spawn_ok (child w i j)")
  case False
  with no_spawn show ?thesis by (simp add: evaluate_criterion_def)
next
  case True
  let ?ms = "start_pipes w (child w i j) (run_options cfg a s c workDir) c
      (announce_criterion cfg a i s workDir j c st)"
  obtain st1 r where p: "await_pipes w cfg (child w i j) ?ms = (st1, r)"
    by (cases "await_pipes w cfg (child w i j) ?ms")
  show ?thesis
  proof (cases r)
    case (Inl e)
    with True p fault show ?thesis by (simp add: evaluate_criterion_def)
  next
    case (Inr m)
    with True p finished show ?thesis
      by (simp add: evaluate_criterion_def split: prod.split)
  qed
qed

lemma evaluate_criterion_dirs:
  "dirs (fst (evaluate_criterion w cfg a i s workDir j c st)) = dirs st"
proof (cases rule: evaluate_criterion_cases [of w i j cfg a s workDir c st])
  case no_spawn
  then show ?thesis by (simp add: announce_criterion_eq)
next
  case (fault e st1)
  from await_pipes_dirsD [OF fault(2)]
  show ?thesis by (simp add: fault(3) start_pipes_steps announce_criterion_eq)
next
  case (finished m st1)
  from await_pipes_dirsD [OF finished(2)]
  show ?thesis by (simp add: finished(3) start_pipes_steps announce_criterion_eq criterion_result_eq)
qed

text \<open>Only a test command that leaves something undeletable changes what can be removed,
  and only in its working directory.\<close>

lemma evaluate_criterion_undeletable:
  "undeletable (fst (evaluate_criterion w cfg a i s workDir j c st))
     = (if spawn_ok (child w i j) \<and> leaves_undeletable (child w i j)
        then insert workDir (undeletable st) else undeletable st)"
proof (cases rule: evaluate_criterion_cases [of w i j cfg a s workDir c st])
  case no_spawn
  then show ?thesis by (simp add: announce_criterion_eq)
next
  case (fault e st1)
  from await_pipes_undeletableD [OF fault(2)]
  show ?thesis
    by (simp add: fault(1,3) start_pipes_steps announce_criterion_eq run_options_def)
next
  case (finished m st1)
  from await_pipes_undeletableD [OF finished(2)]
  show ?thesis
    by (simp add: finished(1,3) start_pipes_steps announce_criterion_eq criterion_result_eq
        run_options_def)
qed

lemma evaluate_criterion_returns:
  assumes "spawn_ok (child w i j)" and "Read_fault \<notin> set (reads (child w i j))"
  shows "\<exists>r. snd (evaluate_criterion w cfg a i s workDir j c st) = Inr r"
proof (cases rule: evaluate_criterion_cases [of w i j cfg a s workDir c st])
  case no_spawn
  with assms show ?thesis by simp
next
  case (fault e st1)
  then have "snd (await_pipes w cfg (child w i j)
      (start_pipes w (child w i j) (run_options cfg a s c workDir) c
            (announce_criterion cfg a i s workDir j c st))) = Inl e"
    by simp
  from await_pipes_fault [OF this] assms show ?thesis by simp
next
  case (finished m st1)
  then show ?thesis by simp
qed

lemma evaluate_criterion_result:
  assumes "snd (evaluate_criterion w cfg a i s workDir j c st) = Inr r"
  shows "r = \<lparr>points = (if exit (child w i j) = Exited 0 then criteria_points c else 0),
              comments = normalize_comments
                (concat (map (text_decode w) (stdout_chunks (reads (child w i j)))))\<rparr>"
proof (cases rule: evaluate_criterion_cases [of w i j cfg a s workDir c st])
  case no_spawn
  with assms show ?thesis by simp
next
  case (fault e st1)
  with assms show ?thesis by simp
next
  case (finished m st1)
  then have "snd (await_pipes w cfg (child w i j)
      (start_pipes w (child w i j) (run_options cfg a s c workDir) c
            (announce_criterion cfg a i s workDir j c st))) = Inr m"
    by simp
  from await_pipes_output [OF this]
  have "output_text m = concat (map (text_decode w) (stdout_chunks (reads (child w i j))))"
    by (simp add: start_pipes_steps)
  with assms finished show ?thesis
    by (simp add: criterion_result_eq success_iff)
qed


lemma evaluate_criterion_warns:
  assumes "snd (evaluate_criterion w cfg a i s workDir j c st) = Inr r"
    and "stdin_error (child w i j)"
  shows "Console_log Failed_writing_process_input
           \<in> set (trace (fst (evaluate_criterion w cfg a i s workDir j c st)))"
proof (cases rule: evaluate_criterion_cases [of w i j cfg a s workDir c st])
  case no_spawn
  with assms show ?thesis by simp
next
  case (fault e st1)
  with assms show ?thesis by simp
next
  case (finished m st1)
  let ?ms = "start_pipes w (child w i j) (run_options cfg a s c workDir) c
      (announce_criterion cfg a i s workDir j c st)"
  have "snd (await_pipes w cfg (child w i j) ?ms) = Inr m"
    by (simp add: finished(2))
  from await_pipes_warns [OF this assms(2)]
  have "Console_log Failed_writing_process_input \<in> set (trace st1)"
    by (simp add: finished(2))
  then show ?thesis
    by (simp add: finished(3) criterion_result_eq)
qed

lemma evaluate_criterion_stdin_calls:
  assumes "snd (evaluate_criterion w cfg a i s workDir j c st) = Inr r"
  shows "stdin_calls (trace (fst (evaluate_criterion w cfg a i s workDir j c st))) =
           stdin_calls (trace st)
           @ Stdin_write (text_encode w (replace_br (longDescription c)))
               (stdin_written (child w i j) (text_encode w (replace_br (longDescription c))))
             # (if stdin_error (child w i j) then [] else [Stdin_close])"
proof (cases rule: evaluate_criterion_cases [of w i j cfg a s workDir c st])
  case no_spawn
  with assms show ?thesis by simp
next
  case (fault e st1)
  with assms show ?thesis by simp
next
  case (finished m st1)
  let ?ms = "start_pipes w (child w i j) (run_options cfg a s c workDir) c
      (announce_criterion cfg a i s workDir j c st)"
  have "snd (await_pipes w cfg (child w i j) ?ms) = Inr m"
    by (simp add: finished(2))
  from await_pipes_stdin_calls [OF this]
  have "stdin_calls (trace st1) =
          stdin_calls (trace (snd ?ms)) @ (if stdin_error (child w i j) then [] else [Stdin_close])"
    by (simp add: finished(2))
  moreover have "stdin_calls (trace (snd ?ms)) =
      stdin_calls (trace st)
      @ [Stdin_write (text_encode w (replace_br (longDescription c)))
           (stdin_written (child w i j) (text_encode w (replace_br (longDescription c))))]"
    by (simp add: start_pipes_steps announce_criterion_eq)
  ultimately show ?thesis
    by (simp add: finished(3) criterion_result_eq)
qed

section \<open>The replacement in the input text\<close>

lemma br_crlf_first_only:
  assumes "k < 7" and "br_crlf ! k = 0x3C"
  shows "k = 0"
proof -
  from assms(1) have "k = 0 \<or> k = 1 \<or> k = 2 \<or> k = 3 \<or> k = 4 \<or> k = 5 \<or> k = 6"
    by arith
  with assms(2) show ?thesis
    by (auto simp: br_crlf_def)
qed

lemma br_crlf_no_overlap:
  assumes "prefix br_crlf (a @ br_crlf @ b)"
  shows "a = [] \<or> prefix br_crlf a"
proof (cases "length br_crlf \<le> length a")
  case True
  have "prefix a (a @ br_crlf @ b)" by simp
  from prefix_length_prefix [OF assms this True] show ?thesis by simp
next
  case False
  then have k: "length a < 7" by (simp add: br_crlf_def)
  from assms obtain zs where z: "a @ br_crlf @ b = br_crlf @ zs"
    by (auto simp: prefix_def)
  have "(a @ br_crlf @ b) ! length a = 0x3C"
    by (simp add: nth_append br_crlf_def)
  moreover have "length br_crlf = 7" by (simp add: br_crlf_def)
  then have "(br_crlf @ zs) ! length a = br_crlf ! length a"
    using k by (simp add: nth_append)
  ultimately have "br_crlf ! length a = 0x3C"
    using z by simp
  from br_crlf_first_only [OF k this] show ?thesis by simp
qed

lemma replace_br_append:
  "replace_br (a @ br_crlf @ b) = replace_br a @ LF # replace_br b"
proof (induction a rule: replace_br.induct)
  case 1
  show ?case by (simp add: br_crlf_def)
next
  case (2 c cs)
  show ?case
  proof (cases "prefix br_crlf (c # cs)")
    case True
    then have len: "length br_crlf \<le> length (c # cs)"
      by (rule prefix_length_le)
    have "prefix br_crlf ((c # cs) @ br_crlf @ b)"
      using True by (rule prefix_prefix)
    then have p: "prefix br_crlf (c # cs @ br_crlf @ b)" by simp
    have d: "drop (length br_crlf) (c # cs @ br_crlf @ b)
        = drop (length br_crlf) (c # cs) @ br_crlf @ b"
      using len drop_append [of "length br_crlf" "c # cs" "br_crlf @ b"] by simp
    have "replace_br ((c # cs) @ br_crlf @ b)
        = LF # replace_br (drop (length br_crlf) (c # cs @ br_crlf @ b))"
      using p by (simp add: replace_br.simps(2) [of c "cs @ br_crlf @ b"])
    also have "\<dots> = LF # replace_br (drop (length br_crlf) (c # cs)) @ LF # replace_br b"
      unfolding d using "2.IH"(1) [OF True] by simp
    also have "\<dots> = replace_br (c # cs) @ LF # replace_br b"
      using True by (simp add: replace_br.simps(2) [of c cs])
    finally show ?thesis .
  next
    case False
    have "\<not> prefix br_crlf ((c # cs) @ br_crlf @ b)"
      using br_crlf_no_overlap [of "c # cs" b] False by blast
    then have np: "\<not> prefix br_crlf (c # cs @ br_crlf @ b)" by simp
    have "replace_br ((c # cs) @ br_crlf @ b) = c # replace_br (cs @ br_crlf @ b)"
      using np by (simp add: replace_br.simps(2) [of c "cs @ br_crlf @ b"])
    also have "\<dots> = c # replace_br cs @ LF # replace_br b"
      using "2.IH"(2) [OF False] by simp
    also have "\<dots> = replace_br (c # cs) @ LF # replace_br b"
      using False by (simp add: replace_br.simps(2) [of c cs])
    finally show ?thesis .
  qed
qed

lemma replace_br_id:
  "\<not> sublist br_crlf t \<Longrightarrow> replace_br t = t"
proof (induction t rule: replace_br.induct)
  case 1
  show ?case by simp
next
  case (2 c cs)
  from "2.prems" have np: "\<not> prefix br_crlf (c # cs)" and ns: "\<not> sublist br_crlf cs"
    by (simp_all add: sublist_Cons_right)
  from "2.IH"(2) [OF np ns] np show ?case
    by (simp add: replace_br.simps(2) [of c cs])
qed


lemmas example_defs = example_world_def example_child_def example_config_def example_criteria_def
  example_submission_def example_assignment_def initial_state_def example_assessment_def
  example_dataset_def failing_world_def

lemmas model_defs = evaluate_criterion_def announce_criterion_def start_pipes_def spawn_def
  stdin_written_def criterion_result_def await_pipes_def stdin_settled_def stdout_read_def stderr_read_def
  write_console_def emit_def console_log_def log_if_def run_options_def

lemmas run_defs = evaluate_def evaluate_submission_def submission_body_def makeTempDir_def
  remove_recursive_def filtered_out_def

section \<open>The verdict of a criterion\<close>

text \<open>
  Claim C1. Whenever the test command could be started and no read of its pipes fails,
  the evaluation of a criterion produces a result; and every result it produces has the
  criterion's points if the child exited with code 0, and 0 points for any other exit code
  and for a child ended by a signal. No other value occurs.
\<close>

theorem points_follow_exit_status:
  "(spawn_ok (child w i j) \<and> Read_fault \<notin> set (reads (child w i j))
      \<longrightarrow> (\<exists>r. snd (evaluate_criterion w cfg a i s workDir j c st) = Inr r))
   \<and> (\<forall>r. snd (evaluate_criterion w cfg a i s workDir j c st) = Inr r
      \<longrightarrow> points r = (if exit (child w i j) = Exited 0 then criteria_points c else 0))"
proof (intro conjI impI allI)
  assume "spawn_ok (child w i j) \<and> Read_fault \<notin> set (reads (child w i j))"
  then show "\<exists>r. snd (evaluate_criterion w cfg a i s workDir j c st) = Inr r"
    by (simp add: evaluate_criterion_returns)
next
  fix r
  assume "snd (evaluate_criterion w cfg a i s workDir j c st) = Inr r"
  from evaluate_criterion_result [OF this]
  show "points r = (if exit (child w i j) = Exited 0 then criteria_points c else 0)"
    by simp
qed

text \<open>The two criteria of the example: exit code 0 gives the 3 points, exit code 1 gives 0.\<close>

theorem points_follow_exit_status_witness:
  "spawn_ok (child example_world 0 0) \<and> Read_fault \<notin> set (reads (child example_world 0 0))
   \<and> snd (evaluate_criterion example_world example_config (example_assignment [''42'']) 0
        (example_submission ''42'') 0 0 (example_criteria ! 0) initial_state)
      = Inr \<lparr>points = 3, comments = [104, 105, 10]\<rparr>
   \<and> points \<lparr>points = 3, comments = [104, 105, 10]\<rparr>
      = (if exit (child example_world 0 0) = Exited 0
         then criteria_points (example_criteria ! 0) else 0)
   \<and> snd (evaluate_criterion example_world example_config (example_assignment [''42'']) 0
        (example_submission ''42'') 0 1 (example_criteria ! 1) initial_state)
      = Inr \<lparr>points = 0, comments = [104, 105, 10]\<rparr>
   \<and> points \<lparr>points = 0, comments = [104, 105, 10]\<rparr>
      = (if exit (child example_world 0 1) = Exited 0
         then criteria_points (example_criteria ! 1) else 0)"
proof -
  have h0: "snd (evaluate_criterion example_world example_config (example_assignment [''42'']) 0
        (example_submission ''42'') 0 0 (example_criteria ! 0) initial_state)
      = Inr \<lparr>points = 3, comments = [104, 105, 10]\<rparr>"
    by (simp add: example_defs model_defs normalize_comments_def SPACE_def is_line_terminator_def)
  have h1: "snd (evaluate_criterion example_world example_config (example_assignment [''42'']) 0
        (example_submission ''42'') 0 1 (example_criteria ! 1) initial_state)
      = Inr \<lparr>points = 0, comments = [104, 105, 10]\<rparr>"
    by (simp add: example_defs model_defs normalize_comments_def SPACE_def is_line_terminator_def)
  have s: "spawn_ok (child example_world 0 0) \<and> Read_fault \<notin> set (reads (child example_world 0 0))"
    by (simp add: example_defs)
  from points_follow_exit_status [of example_world 0 0 example_config "example_assignment [''42'']"
      "example_submission ''42''" 0 "example_criteria ! 0" initial_state]
    points_follow_exit_status [of example_world 0 1 example_config "example_assignment [''42'']"
      "example_submission ''42''" 0 "example_criteria ! 1" initial_state]
    h0 h1 s
  show ?thesis by simp
qed

section \<open>The captured output\<close>

text \<open>The captured text is made of the chunks of standard output alone, in the order of the
  reads, each decoded on its own.\<close>

lemma evaluate_criterion_comments:
  assumes "snd (evaluate_criterion w cfg a i s workDir j c st) = Inr r"
  shows "comments r = normalize_comments
           (concat (map (text_decode w) (stdout_chunks (reads (child w i j)))))"
  using evaluate_criterion_result [OF assms] by simp

lemma utf8_decode_examples:
  "utf8_decode [0x68] = [0x68]" "utf8_decode [0xC3] = [0xFFFD]" "utf8_decode [0xA9] = [0xFFFD]"
  "utf8_decode [0x68, 0xC3, 0xA9] = [0x68, 0xE9]"
  by (simp_all add: utf8_decode_def utf16_units_def Let_def)

text \<open>
  Claim C3, where the program misses it. The reader decodes every chunk it has read with a
  decoder of its own, so a character whose bytes arrive in two reads is not captured: each
  part becomes U+FFFD. A test command that prints \<open>h\<close> and U+00E9, the bytes 68 C3 A9, gets
  the comment \<open>h\<close> U+00E9 when the three bytes are read together, and \<open>h\<close> U+FFFD U+FFFD
  when each byte is read on its own, although the child wrote the same bytes, which decode
  to \<open>h\<close> U+00E9.
\<close>

theorem character_split_between_reads_is_not_captured:
  "concat (stdout_chunks (reads (child split_character_world 0 0))) = [0x68, 0xC3, 0xA9]
   \<and> concat (stdout_chunks (reads (child whole_character_world 0 0))) = [0x68, 0xC3, 0xA9]
   \<and> text_decode split_character_world [0x68, 0xC3, 0xA9] = [0x68, 0xE9]
   \<and> snd (evaluate_criterion whole_character_world example_config (example_assignment [''42'']) 0
        (example_submission ''42'') 0 0 (example_criteria ! 0) initial_state)
      = Inr \<lparr>points = 3, comments = [0x68, 0xE9]\<rparr>
   \<and> snd (evaluate_criterion split_character_world example_config (example_assignment [''42'']) 0
        (example_submission ''42'') 0 0 (example_criteria ! 0) initial_state)
      = Inr \<lparr>points = 3, comments = [0x68, 0xFFFD, 0xFFFD]\<rparr>"
  by (simp add: split_character_world_def whole_character_world_def example_defs model_defs
      utf8_decode_examples normalize_comments_def SPACE_def is_line_terminator_def)

section \<open>The input of the test command\<close>

lemma sublist_replicate:
  assumes "sublist xs (replicate n x)"
  shows "set xs \<subseteq> {x}"
proof -
  from assms have "set xs \<subseteq> set (replicate n x)" by (rule set_mono_sublist)
  also have "\<dots> \<subseteq> {x}" by auto
  finally show ?thesis .
qed

lemma long_description_input:
  "text_encode example_world (replace_br long_description) = replicate 200000 0x61"
proof -
  have "\<not> set br_crlf \<subseteq> {0x61}" by (simp add: br_crlf_def)
  then have "\<not> sublist br_crlf long_description"
    unfolding long_description_def by (blast dest: sublist_replicate)
  then have "replace_br long_description = long_description" by (rule replace_br_id)
  then show ?thesis by (simp add: example_world_def long_description_def)
qed

text \<open>
  Claim C6, where the program misses it. The text given to the write on the child's input
  is the long description with each \<^verbatim>\<open><br/>\<close> followed by CR LF replaced by one LF. The
  program calls \<^verbatim>\<open>write\<close> once and closes the stream without looking at the number of
  bytes written, so what reaches the child is only what that one call writes. With a long
  description of 200000 letters \<open>a\<close> and a pipe that takes 65536 bytes in a call, the child
  is given the first 65536 bytes and then the end of its input; no warning is logged and
  the criterion gets its result.
\<close>

theorem long_input_is_cut_short:
  "longDescription long_criterion = replicate 200000 0x61
   \<and> stdin_takes (child example_world 0 0) = 65536
   \<and> stdin_calls (trace (fst (evaluate_criterion example_world example_config
        (example_assignment [''42'']) 0 (example_submission ''42'') 0 0 long_criterion
        initial_state)))
      = [Stdin_write (replicate 200000 0x61) (replicate 65536 0x61), Stdin_close]
   \<and> Console_log Failed_writing_process_input
        \<notin> set (trace (fst (evaluate_criterion example_world example_config
             (example_assignment [''42'']) 0 (example_submission ''42'') 0 0 long_criterion
             initial_state)))
   \<and> snd (evaluate_criterion example_world example_config (example_assignment [''42'']) 0
        (example_submission ''42'') 0 0 long_criterion initial_state)
      = Inr \<lparr>points = 3, comments = [104, 105, 10]\<rparr>"
proof -
  have l: "text_encode example_world (replace_br (longDescription long_criterion))
      = replicate 200000 0x61"
    using long_description_input by (simp add: long_criterion_def)
  have c: "stdin_error (child example_world 0 0) = False"
    "stdin_takes (child example_world 0 0) = 65536"
    by (simp_all add: example_defs)
  have r: "snd (evaluate_criterion example_world example_config (example_assignment [''42'']) 0
        (example_submission ''42'') 0 0 long_criterion initial_state)
      = Inr \<lparr>points = 3, comments = [104, 105, 10]\<rparr>"
    by (simp add: example_defs model_defs long_criterion_def normalize_comments_def SPACE_def
        is_line_terminator_def)
  have t: "Console_log Failed_writing_process_input
        \<notin> set (trace (fst (evaluate_criterion example_world example_config
             (example_assignment [''42'']) 0 (example_submission ''42'') 0 0 long_criterion
             initial_state)))"
    by (simp add: example_defs model_defs long_criterion_def)
  have "stdin_calls (trace (fst (evaluate_criterion example_world example_config
        (example_assignment [''42'']) 0 (example_submission ''42'') 0 0 long_criterion
        initial_state)))
      = [Stdin_write (replicate 200000 0x61) (replicate 65536 0x61), Stdin_close]"
    using evaluate_criterion_stdin_calls [OF r]
    by (simp add: l c stdin_written_def initial_state_def)
  with r t c show ?thesis
    by (simp add: long_criterion_def long_description_def)
qed

section \<open>A rejected input write\<close>

text \<open>
  Claim C8. If writing the input is rejected while the child could be started and no read
  fails, the evaluation of the criterion still produces a result, the console shows the
  warning \<^verbatim>\<open>Failed writing process input\<close>, the points are those the exit status gives,
  and the result is the one the same child gives when the write is not rejected.
\<close>

theorem input_write_failure_is_tolerated:
  assumes "stdin_error (child w i j)" and "spawn_ok (child w i j)"
    and "Read_fault \<notin> set (reads (child w i j))"
  shows "\<exists>r. snd (evaluate_criterion w cfg a i s workDir j c st) = Inr r
     \<and> Console_log Failed_writing_process_input
          \<in> set (trace (fst (evaluate_criterion w cfg a i s workDir j c st)))
     \<and> points r = (if exit (child w i j) = Exited 0 then criteria_points c else 0)
     \<and> (\<forall>w'. text_decode w' = text_decode w
              \<and> child w' i j = (child w i j)\<lparr>stdin_error := False\<rparr>
           \<longrightarrow> snd (evaluate_criterion w' cfg a i s workDir j c st) = Inr r)"
proof -
  from evaluate_criterion_returns [OF assms(2,3)]
  obtain r where r: "snd (evaluate_criterion w cfg a i s workDir j c st) = Inr r" by blast
  note res = evaluate_criterion_result [OF r]
  have same: "snd (evaluate_criterion w' cfg a i s workDir j c st) = Inr r"
    if w': "text_decode w' = text_decode w \<and> child w' i j = (child w i j)\<lparr>stdin_error := False\<rparr>"
    for w'
  proof -
    from w' assms(2,3) have "spawn_ok (child w' i j)" "Read_fault \<notin> set (reads (child w' i j))"
      by simp_all
    from evaluate_criterion_returns [OF this]
    obtain r' where r': "snd (evaluate_criterion w' cfg a i s workDir j c st) = Inr r'" by blast
    from evaluate_criterion_result [OF r'] w' res have "r' = r" by simp
    with r' show ?thesis by simp
  qed
  from r evaluate_criterion_warns [OF r assms(1)] res same show ?thesis
    by auto
qed

text \<open>The second criterion of the example: the write is rejected, the child exits with 1.\<close>

theorem input_write_failure_is_tolerated_witness:
  "stdin_error (child example_world 0 1) \<and> spawn_ok (child example_world 0 1)
   \<and> Read_fault \<notin> set (reads (child example_world 0 1))
   \<and> (\<exists>r. snd (evaluate_criterion example_world example_config (example_assignment [''42'']) 0
          (example_submission ''42'') 0 1 (example_criteria ! 1) initial_state) = Inr r
        \<and> Console_log Failed_writing_process_input
          \<in> set (trace (fst (evaluate_criterion example_world example_config
               (example_assignment [''42'']) 0 (example_submission ''42'') 0 1
               (example_criteria ! 1) initial_state)))
        \<and> points r = 0)"
proof -
  have h: "stdin_error (child example_world 0 1)" "spawn_ok (child example_world 0 1)"
    "Read_fault \<notin> set (reads (child example_world 0 1))"
    by (simp_all add: example_defs)
  have e: "exit (child example_world 0 1) = Exited 1"
    by (simp add: example_defs)
  from input_write_failure_is_tolerated [OF h, of example_config "example_assignment [''42'']"
      "example_submission ''42''" 0 "example_criteria ! 1" initial_state] h e
  show ?thesis by auto
qed

section \<open>Leading spaces in the comments\<close>

lemma replace_leading_spaces_False:
  "replace_leading_spaces False (c # cs) = c # replace_leading_spaces (is_line_terminator c) cs"
  by simp

lemma replace_leading_spaces_no_space:
  "\<not> prefix [SPACE] xs \<Longrightarrow> replace_leading_spaces b xs = replace_leading_spaces False xs"
  by (cases xs) (simp_all add: Let_def)

lemma replace_leading_spaces_run:
  assumes "\<not> prefix [SPACE] xs"
  shows "replace_leading_spaces True (replicate n SPACE @ xs)
           = replicate n PUNCTUATION_SPACE @ replace_leading_spaces False xs"
proof (cases n)
  case 0
  with assms show ?thesis by (simp add: replace_leading_spaces_no_space [of xs True])
next
  case (Suc k)
  have tw: "takeWhile (\<lambda>x. x = SPACE) xs = []" and dw: "dropWhile (\<lambda>x. x = SPACE) xs = xs"
    using assms by (cases xs; simp)+
  have t: "takeWhile (\<lambda>x. x = SPACE) (replicate m SPACE @ xs) = replicate m SPACE" for m
    by (induction m) (simp_all add: tw)
  have d: "dropWhile (\<lambda>x. x = SPACE) (replicate m SPACE @ xs) = xs" for m
    by (induction m) (simp_all add: dw)
  have ne: "replicate n SPACE \<noteq> []"
    by (simp add: Suc)
  have eq: "replicate n SPACE @ xs = SPACE # (replicate k SPACE @ xs)"
    by (simp add: Suc)
  have step: "replace_leading_spaces True (replicate n SPACE @ xs)
      = (let s = takeWhile (\<lambda>x. x = SPACE) (replicate n SPACE @ xs) in
         if True \<and> s \<noteq> [] then
           replicate (length s) PUNCTUATION_SPACE
             @ replace_leading_spaces False (dropWhile (\<lambda>x. x = SPACE) (replicate n SPACE @ xs))
         else SPACE # replace_leading_spaces (is_line_terminator SPACE) (replicate k SPACE @ xs))"
    unfolding eq by (rule replace_leading_spaces.simps(2))
  show ?thesis
    unfolding step t d Let_def using ne by (simp del: replace_leading_spaces.simps)
qed

lemma replace_leading_spaces_line:
  "\<forall>x\<in>set xs. \<not> is_line_terminator x \<Longrightarrow> replace_leading_spaces False xs = xs"
  by (induction xs) simp_all

lemma replace_leading_spaces_next_line:
  "\<forall>x\<in>set xs. \<not> is_line_terminator x \<Longrightarrow> is_line_terminator t \<Longrightarrow>
     replace_leading_spaces False (xs @ t # below) = xs @ t # replace_leading_spaces True below"
  by (induction xs) simp_all

lemma SPACE_not_terminator: "\<not> is_line_terminator SPACE"
  by (simp add: is_line_terminator_def SPACE_def)

text \<open>
  Claim C7. A line is a stretch of text up to a line terminator of the regular expression
  language (LF, CR, U+2028, U+2029). For a line that consists of \<open>n\<close> spaces followed by
  text that does not begin with a space, the comments hold \<open>n\<close> times U+2008 followed by
  that text unchanged, its interior spaces included; this holds for the last line of the
  captured text and for a line followed by a terminator, after which the rest of the text
  is treated the same way.
\<close>

theorem leading_spaces_become_punctuation_spaces:
  assumes "\<forall>x\<in>set line. \<not> is_line_terminator x" and "\<not> prefix [SPACE] line"
  shows "normalize_comments (replicate n SPACE @ line) = replicate n PUNCTUATION_SPACE @ line
     \<and> (is_line_terminator t \<longrightarrow>
          normalize_comments (replicate n SPACE @ line @ t # below)
            = replicate n PUNCTUATION_SPACE @ line @ t # normalize_comments below)"
proof (intro conjI impI)
  show "normalize_comments (replicate n SPACE @ line) = replicate n PUNCTUATION_SPACE @ line"
    using assms
    by (simp add: normalize_comments_def replace_leading_spaces_run replace_leading_spaces_line)
next
  assume t: "is_line_terminator t"
  then have "t \<noteq> SPACE" using SPACE_not_terminator by auto
  with assms(2) have "\<not> prefix [SPACE] (line @ t # below)"
    by (cases line) simp_all
  then show "normalize_comments (replicate n SPACE @ line @ t # below)
            = replicate n PUNCTUATION_SPACE @ line @ t # normalize_comments below"
    using assms(1) t
    by (simp add: normalize_comments_def replace_leading_spaces_run
        replace_leading_spaces_next_line)
qed

text \<open>Two lines, indented by two spaces and by one, each with spaces inside.\<close>

theorem leading_spaces_become_punctuation_spaces_witness:
  "list_all (\<lambda>x. \<not> is_line_terminator x) (ustr ''a b'') \<and> \<not> prefix [SPACE] (ustr ''a b'')
   \<and> is_line_terminator LF
   \<and> normalize_comments (replicate 2 SPACE @ ustr ''a b'' @ LF # ustr '' c  d'')
       = replicate 2 PUNCTUATION_SPACE @ ustr ''a b'' @ LF # normalize_comments (ustr '' c  d'')
   \<and> list_all (\<lambda>x. \<not> is_line_terminator x) (ustr ''c  d'') \<and> \<not> prefix [SPACE] (ustr ''c  d'')
   \<and> normalize_comments (replicate 1 SPACE @ ustr ''c  d'')
       = replicate 1 PUNCTUATION_SPACE @ ustr ''c  d''"
proof -
  have h1: "\<forall>x\<in>set (ustr ''a b''). \<not> is_line_terminator x" "\<not> prefix [SPACE] (ustr ''a b'')"
    by (simp_all add: ustr_def is_line_terminator_def SPACE_def)
  have h2: "\<forall>x\<in>set (ustr ''c  d''). \<not> is_line_terminator x" "\<not> prefix [SPACE] (ustr ''c  d'')"
    by (simp_all add: ustr_def is_line_terminator_def SPACE_def)
  have l: "is_line_terminator LF"
    by (simp add: is_line_terminator_def LF_def)
  from leading_spaces_become_punctuation_spaces [OF h1, of 2 LF "ustr '' c  d''"]
    leading_spaces_become_punctuation_spaces [OF h2, of 1 LF "[]"] h1 h2 l
  show ?thesis by (simp add: list_all_iff)
qed

section \<open>Upload\<close>

lemma filter_assessments_eq:
  "filter_assessments cfg outs st =
     (filter (\<lambda>out. \<not> filtered_out cfg (user_id out)) outs,
      emits (map (\<lambda>out. Console_log (Filtered_out_user (user_id out)))
               (filter (\<lambda>out. filtered_out cfg (user_id out)) outs)) st)"
  by (induction outs arbitrary: st) (simp_all add: to_emits)

lemma emit_times_eq: "emit_times n e st = emits (replicate n e) st"
  by (induction n arbitrary: st) (simp_all add: to_emits replicate_app_Cons_same)

text \<open>The total of a dry run: the points of the criteria, added from the left.\<close>

lemma would_upload_points_eq:
  "would_upload_points w out
     = foldl (number_add w) 0 (0 # map (\<lambda>kv. points (snd kv)) (criteria out))"
proof -
  have "map (points_or_0 \<circ> (\<lambda>kv. JCriteria (snd kv))) xs = map (\<lambda>kv. points (snd kv)) xs" for xs
    by (induction xs) simp_all
  note * = this
  show ?thesis
    by (simp add: would_upload_points_def Object_values_def *)
qed

lemma upload_each_dry_step:
  assumes "dryRun cfg"
  shows "upload_each w cfg d k (out # outs) (errors, results) st =
     upload_each w cfg d (Suc k) outs (errors, results @ [Dry_run_result])
       (emits ((if verbose cfg
                then [Console_log (Url_and_assessment (course d) (rubricAssociationId d) out)] else [])
               @ [Console_log (Would_upload (would_upload_points w out) (user_id out))]) st)"
  using assms by (simp add: log_if_def console_log_def emit_emits)

lemma upload_each_dry_run:
  assumes "dryRun cfg"
  shows "upload_each w cfg d k outs (errors, results) st =
     (emits (concat (map (\<lambda>out.
          (if verbose cfg
           then [Console_log (Url_and_assessment (course d) (rubricAssociationId d) out)] else [])
          @ [Console_log (Would_upload (would_upload_points w out) (user_id out))]) outs)) st,
      Inr (errors, results @ replicate (length outs) Dry_run_result))"
proof (induction outs arbitrary: k results st)
  case Nil
  show ?case by simp
next
  case (Cons out outs)
  show ?case
    by (simp only: upload_each_dry_step [OF assms] Cons.IH emits_emits concat.simps list.map
        length_Cons replicate_Suc append_assoc append_Cons append_Nil)
qed

lemma upload_dry_run:
  assumes "dryRun cfg"
  shows "upload w cfg data st =
     (emits (dry_run_events w cfg data) st,
      data\<lparr>assessmentOutputDataList := kept_assessments cfg data\<rparr>,
      Inr (replicate (length (kept_assessments cfg data)) Dry_run_result))"
proof -
  let ?l = "kept_assessments cfg data"
  let ?d = "data\<lparr>assessmentOutputDataList := ?l\<rparr>"
  let ?st1 = "emits (map (\<lambda>out. Console_log (Filtered_out_user (user_id out)))
               (filter (\<lambda>out. filtered_out cfg (user_id out)) (assessmentOutputDataList data))) st"
  let ?st5 = "console_log Empty_line (emit (stdout_text w ''.'')
         (emit_times (length ?l) (stdout_text w ''_'')
           (log_if (verbose cfg) (Uploading_assessments (rubricAssociationId ?d)) ?st1)))"
  let ?st6 = "emits (concat (map (\<lambda>out.
          (if verbose cfg
           then [Console_log (Url_and_assessment (course ?d) (rubricAssociationId ?d) out)] else [])
          @ [Console_log (Would_upload (would_upload_points w out) (user_id out))]) ?l)) ?st5"
  have f: "filter_assessments cfg (assessmentOutputDataList data) st = (?l, ?st1)"
    by (simp add: filter_assessments_eq kept_assessments_def)
  have loop: "upload_each w cfg ?d 0 ?l ([], []) ?st5
      = (?st6, Inr ([], replicate (length ?l) Dry_run_result))"
    using upload_each_dry_run [OF assms, of w ?d 0 ?l "[]" "[]" ?st5] by simp
  have post: "console_log (Upload_finished (length ([]::upload_result list)) (length ?l))
        (fold (\<lambda>e. console_log (Error_dir e)) []
          (log_if (verbose cfg) (Results_dir (replicate (length ?l) Dry_run_result))
            (console_log Empty_line ?st6)))
       = emits (dry_run_events w cfg data) st"
    by (simp add: log_if_def console_log_def emit_emits emit_times_eq dry_run_events_def
        upload_header_events_def)
  show ?thesis
    unfolding upload_def f prod.case Let_def loop sum.case
    using assms post by simp
qed

text \<open>Whatever the mode, \<^verbatim>\<open>upload\<close> begins with the filter, the row of underscores and the
  dot.\<close>

lemma upload_each_prefix:
  "prefix (trace st) (trace (fst (upload_each w cfg d k outs acc st)))"
proof (induction outs arbitrary: k acc st)
  case Nil
  show ?case by simp
next
  case (Cons out outs)
  obtain errors results where acc: "acc = (errors, results)" by (cases acc)
  have *: "prefix (trace st) (trace (fst (upload_each w cfg d k' outs acc' (emits es st))))"
    for es k' acc'
    using Cons.IH [where k = k' and acc = acc' and st = "emits es st"]
    by (simp add: append_prefixD)
  show ?case
    unfolding acc
    by (cases "post w k") (simp_all add: Let_def to_emits *)
qed

lemma fold_error_dir:
  "fold (\<lambda>e. console_log (Error_dir e)) errors st
     = emits (map (\<lambda>e. Console_log (Error_dir e)) errors) st"
  by (induction errors arbitrary: st) (simp_all add: to_emits)

lemma upload_header:
  "prefix (trace st @ upload_header_events w cfg data) (trace (fst (upload w cfg data st)))"
proof -
  let ?l = "kept_assessments cfg data"
  let ?d = "data\<lparr>assessmentOutputDataList := ?l\<rparr>"
  let ?st1 = "emits (map (\<lambda>out. Console_log (Filtered_out_user (user_id out)))
               (filter (\<lambda>out. filtered_out cfg (user_id out)) (assessmentOutputDataList data))) st"
  let ?st5 = "console_log Empty_line (emit (stdout_text w ''.'')
         (emit_times (length ?l) (stdout_text w ''_'')
           (log_if (verbose cfg) (Uploading_assessments (rubricAssociationId ?d)) ?st1)))"
  have f: "filter_assessments cfg (assessmentOutputDataList data) st = (?l, ?st1)"
    by (simp add: filter_assessments_eq kept_assessments_def)
  have h: "trace ?st5 = trace st @ upload_header_events w cfg data"
    by (simp add: to_emits emit_times_eq upload_header_events_def)
  obtain st6 r where u: "upload_each w cfg ?d 0 ?l ([], []) ?st5 = (st6, r)"
    by (cases "upload_each w cfg ?d 0 ?l ([], []) ?st5")
  have "prefix (trace ?st5) (trace st6)"
    using upload_each_prefix [of ?st5 w cfg ?d 0 ?l "([], [])"] unfolding u by simp
  then have p: "prefix (trace st @ upload_header_events w cfg data) (trace st6)"
    unfolding h .
  have "prefix (trace st6) (trace (fst (upload w cfg data st)))"
    unfolding upload_def f prod.case Let_def u
    by (cases r) (simp_all add: to_emits fold_error_dir split: prod.split)
  with p show ?thesis by (meson prefix_order.trans)
qed

lemma upload_header_events_mode:
  "upload_header_events w (cfg\<lparr>dryRun := b\<rparr>) data = upload_header_events w cfg data"
  by (simp add: upload_header_events_def kept_assessments_def filtered_out_def)

lemma upload_argument:
  "fst (snd (upload w cfg data st)) =
     data\<lparr>assessmentOutputDataList :=
            filter (\<lambda>out. \<not> filtered_out cfg (user_id out)) (assessmentOutputDataList data)\<rparr>"
proof -
  let ?l = "filter (\<lambda>out. \<not> filtered_out cfg (user_id out)) (assessmentOutputDataList data)"
  let ?d = "data\<lparr>assessmentOutputDataList := ?l\<rparr>"
  obtain st1 where f: "filter_assessments cfg (assessmentOutputDataList data) st = (?l, st1)"
    by (simp add: filter_assessments_eq)
  let ?st5 = "console_log Empty_line (emit (stdout_text w ''.'')
         (emit_times (length ?l) (stdout_text w ''_'')
           (log_if (verbose cfg) (Uploading_assessments (rubricAssociationId ?d)) st1)))"
  obtain st6 r where u: "upload_each w cfg ?d 0 ?l ([], []) ?st5 = (st6, r)"
    by (cases "upload_each w cfg ?d 0 ?l ([], []) ?st5")
  show ?thesis
    unfolding upload_def f prod.case Let_def u
    by (cases r) (simp_all split: prod.split)
qed

section \<open>The criteria of one submission\<close>

lemma evaluate_criterion_prefix:
  "prefix (trace st) (trace (fst (evaluate_criterion w cfg a i s workDir j c st)))"
proof (cases rule: evaluate_criterion_cases [of w i j cfg a s workDir c st])
  case no_spawn
  then show ?thesis by (simp add: announce_criterion_eq)
next
  case (fault e st1)
  let ?st0 = "announce_criterion cfg a i s workDir j c st"
  let ?ms = "start_pipes w (child w i j) (run_options cfg a s c workDir) c ?st0"
  have 1: "prefix (trace st) (trace ?st0)" by (simp add: announce_criterion_eq)
  have 2: "prefix (trace ?st0) (trace (snd ?ms))" by (rule start_pipes_steps)
  from await_pipes_prefix [of ?ms w cfg "child w i j"]
  have 3: "prefix (trace (snd ?ms)) (trace st1)" by (simp add: fault(2))
  from 1 2 3 have "prefix (trace st) (trace st1)" by (meson prefix_order.trans)
  then show ?thesis by (simp add: fault(3))
next
  case (finished m st1)
  let ?st0 = "announce_criterion cfg a i s workDir j c st"
  let ?ms = "start_pipes w (child w i j) (run_options cfg a s c workDir) c ?st0"
  have 1: "prefix (trace st) (trace ?st0)" by (simp add: announce_criterion_eq)
  have 2: "prefix (trace ?st0) (trace (snd ?ms))" by (rule start_pipes_steps)
  from await_pipes_prefix [of ?ms w cfg "child w i j"]
  have 3: "prefix (trace (snd ?ms)) (trace st1)" by (simp add: finished(2))
  from 1 2 3 have "prefix (trace st) (trace st1)" by (meson prefix_order.trans)
  then show ?thesis by (simp add: finished(3) criterion_result_eq prefix_prefix)
qed

lemma evaluate_criteria_step:
  "evaluate_criteria w cfg a i s workDir j (c # cs) out st =
     (case snd (evaluate_criterion w cfg a i s workDir j c st) of
        Inl e \<Rightarrow> (fst (evaluate_criterion w cfg a i s workDir j c st), Inl e)
      | Inr r \<Rightarrow>
          evaluate_criteria w cfg a i s workDir (Suc j) cs
            (out\<lparr>criteria := AList.update (''criterion_'' @ criteria_id c) r (criteria out)\<rparr>)
            (fst (evaluate_criterion w cfg a i s workDir j c st)))"
  by (cases "evaluate_criterion w cfg a i s workDir j c st") (simp split: sum.split)

lemma evaluate_criteria_dirs:
  "dirs (fst (evaluate_criteria w cfg a i s workDir j cs out st)) = dirs st"
proof (induction cs arbitrary: j out st)
  case Nil
  show ?case by simp
next
  case (Cons c cs)
  show ?case
    by (cases "snd (evaluate_criterion w cfg a i s workDir j c st)")
       (simp_all del: evaluate_criteria.simps add: evaluate_criteria_step evaluate_criterion_dirs Cons.IH)
qed

lemma evaluate_criteria_undeletable:
  "(\<forall>k<length cs. \<not> leaves_undeletable (child w i (j + k))) \<Longrightarrow>
     undeletable (fst (evaluate_criteria w cfg a i s workDir j cs out st)) = undeletable st"
proof (induction cs arbitrary: j out st)
  case Nil
  show ?case by simp
next
  case (Cons c cs)
  from Cons.prems have h: "\<not> leaves_undeletable (child w i j)" by fastforce
  from Cons.prems have t: "\<forall>k<length cs. \<not> leaves_undeletable (child w i (Suc j + k))"
    by fastforce
  show ?case
    by (cases "snd (evaluate_criterion w cfg a i s workDir j c st)")
       (simp_all del: evaluate_criteria.simps
          add: evaluate_criteria_step evaluate_criterion_undeletable h Cons.IH [OF t])
qed

lemma evaluate_criteria_undeletable_subset:
  "undeletable (fst (evaluate_criteria w cfg a i s workDir j cs out st))
     \<subseteq> insert workDir (undeletable st)"
proof (induction cs arbitrary: j out st)
  case Nil
  show ?case by auto
next
  case (Cons c cs)
  show ?case
  proof (cases "snd (evaluate_criterion w cfg a i s workDir j c st)")
    case (Inl e)
    then show ?thesis
      by (auto simp del: evaluate_criteria.simps
          simp add: evaluate_criteria_step evaluate_criterion_undeletable)
  next
    case (Inr r)
    have "undeletable (fst (evaluate_criteria w cfg a i s workDir j (c # cs) out st))
        \<subseteq> insert workDir (undeletable (fst (evaluate_criterion w cfg a i s workDir j c st)))"
      by (simp del: evaluate_criteria.simps add: evaluate_criteria_step Inr Cons.IH)
    then show ?thesis
      by (auto simp add: evaluate_criterion_undeletable split: if_splits)
  qed
qed

lemma evaluate_criteria_prefix:
  "prefix (trace st) (trace (fst (evaluate_criteria w cfg a i s workDir j cs out st)))"
proof (induction cs arbitrary: j out st)
  case Nil
  show ?case by simp
next
  case (Cons c cs)
  show ?case
  proof (cases "snd (evaluate_criterion w cfg a i s workDir j c st)")
    case (Inl e)
    then show ?thesis by (simp del: evaluate_criteria.simps add: evaluate_criteria_step evaluate_criterion_prefix)
  next
    case (Inr r)
    have "prefix (trace (fst (evaluate_criterion w cfg a i s workDir j c st)))
        (trace (fst (evaluate_criteria w cfg a i s workDir j (c # cs) out st)))"
      by (simp del: evaluate_criteria.simps add: evaluate_criteria_step Inr Cons.IH)
    with evaluate_criterion_prefix [of st w cfg a i s workDir j c] show ?thesis
      by (meson prefix_order.trans)
  qed
qed

lemma evaluate_criteria_user_id:
  "snd (evaluate_criteria w cfg a i s workDir j cs out st) = Inr out' \<Longrightarrow> user_id out' = user_id out"
proof (induction cs arbitrary: j out st)
  case Nil
  then show ?case by simp
next
  case (Cons c cs)
  show ?case
  proof (cases "snd (evaluate_criterion w cfg a i s workDir j c st)")
    case (Inl e)
    with Cons.prems show ?thesis by (simp del: evaluate_criteria.simps add: evaluate_criteria_step)
  next
    case (Inr r)
    with Cons.prems have "snd (evaluate_criteria w cfg a i s workDir (Suc j) cs
            (out\<lparr>criteria := AList.update (''criterion_'' @ criteria_id c) r (criteria out)\<rparr>)
            (fst (evaluate_criterion w cfg a i s workDir j c st))) = Inr out'"
      by (simp del: evaluate_criteria.simps add: evaluate_criteria_step)
    from Cons.IH [OF this] show ?thesis by simp
  qed
qed

section \<open>The attachments\<close>

lemma write_chunks_eq:
  "write_chunks cfg workDir name chunks st =
     emits (concat (map (\<lambda>chunk. Write_file workDir name chunk
                          # (if verbose cfg then [Stdout_write chunk] else [])) chunks)) st"
  by (induction chunks arbitrary: st) (simp_all add: emit_emits Let_def)

text \<open>One turn of the loop over the attachments either throws or goes on to the next one.\<close>

lemma download_attachments_step:
  obtains (throws) e where
      "download_attachments w cfg i workDir k (att # atts) st
         = (if CHR ''/'' \<in> set (display_name att) then st else emit (Get_attachment (url att)) st,
            Inl e)"
      "CHR ''/'' \<in> set (display_name att) \<or> download w i k = Download_rejects
       \<or> download_fails (download w i k) \<or> \<not> file_open_ok w i k"
  | (next_one) chunks where
      "download w i k = Download_response 200 (Some chunks)"
      "download_attachments w cfg i workDir k (att # atts) st
         = download_attachments w cfg i workDir (Suc k) atts
             (emits (Get_attachment (url att) # Open_file workDir (display_name att)
                     # concat (map (\<lambda>chunk. Write_file workDir (display_name att) chunk
                          # (if verbose cfg then [Stdout_write chunk] else [])) chunks)
                     @ [Close_file workDir (display_name att)]) st)"
proof (cases "CHR ''/'' \<in> set (display_name att)")
  case True
  with throws show ?thesis by simp
next
  case False
  show ?thesis
  proof (cases "download w i k")
    case Download_rejects
    with False throws show ?thesis by simp
  next
    case (Download_response stat bdy)
    show ?thesis
    proof (cases "stat = 200")
      case False
      with \<open>CHR ''/'' \<notin> set (display_name att)\<close> Download_response
        throws [of "Unexpected_status stat"]
      show ?thesis by simp
    next
      case True
      show ?thesis
      proof (cases bdy)
        case None
        with \<open>CHR ''/'' \<notin> set (display_name att)\<close> Download_response True
          throws [of Got_no_body]
        show ?thesis by simp
      next
        case (Some chunks)
        show ?thesis
        proof (cases "file_open_ok w i k")
          case False
          with \<open>CHR ''/'' \<notin> set (display_name att)\<close> Download_response True Some
            throws [of Open_failed]
          show ?thesis by simp
        next
          case ok: True
          with \<open>CHR ''/'' \<notin> set (display_name att)\<close> Download_response True Some
            next_one [of chunks]
          show ?thesis by (simp add: write_chunks_eq emit_emits)
        qed
      qed
    qed
  qed
qed

lemma download_attachments_dirs:
  "dirs (fst (download_attachments w cfg i workDir k atts st)) = dirs st"
proof (induction atts arbitrary: k st)
  case Nil
  show ?case by simp
next
  case (Cons att atts)
  show ?case
    by (cases rule: download_attachments_step [of w cfg i workDir k att atts st])
       (simp_all add: Cons.IH emit_emits)
qed

lemma download_attachments_undeletable:
  "undeletable (fst (download_attachments w cfg i workDir k atts st)) = undeletable st"
proof (induction atts arbitrary: k st)
  case Nil
  show ?case by simp
next
  case (Cons att atts)
  show ?case
    by (cases rule: download_attachments_step [of w cfg i workDir k att atts st])
       (simp_all add: Cons.IH emit_emits)
qed

lemma download_attachments_prefix:
  "prefix (trace st) (trace (fst (download_attachments w cfg i workDir k atts st)))"
proof (induction atts arbitrary: k st)
  case Nil
  show ?case by simp
next
  case (Cons att atts)
  show ?case
  proof (cases rule: download_attachments_step [of w cfg i workDir k att atts st])
    case (throws e)
    then show ?thesis by (simp add: emit_emits)
  next
    case (next_one chunks)
    let ?es = "Get_attachment (url att) # Open_file workDir (display_name att)
                     # concat (map (\<lambda>chunk. Write_file workDir (display_name att) chunk
                          # (if verbose cfg then [Stdout_write chunk] else [])) chunks)
                     @ [Close_file workDir (display_name att)]"
    have "prefix (trace st @ ?es) (trace (fst (download_attachments w cfg i workDir k (att # atts) st)))"
      using Cons.IH [where k = "Suc k" and st = "emits ?es st"] by (simp only: next_one(2) trace_emits)
    then show ?thesis by (rule append_prefixD)
  qed
qed

lemma download_attachments_fails:
  "n < length atts \<Longrightarrow> download_fails (download w i (k + n)) \<Longrightarrow>
     \<exists>e. snd (download_attachments w cfg i workDir k atts st) = Inl e"
proof (induction atts arbitrary: k n st)
  case Nil
  then show ?case by simp
next
  case (Cons att atts)
  show ?case
  proof (cases rule: download_attachments_step [of w cfg i workDir k att atts st])
    case (throws e)
    then show ?thesis by simp
  next
    case (next_one chunks)
    show ?thesis
    proof (cases n)
      case 0
      with Cons.prems next_one show ?thesis by simp
    next
      case (Suc n')
      with Cons.prems have "n' < length atts" "download_fails (download w i (Suc k + n'))"
        by simp_all
      from Cons.IH [OF this] show ?thesis by (simp only: next_one(2))
    qed
  qed
qed

lemma stdout_writes_append [simp]:
  "stdout_writes (xs @ ys) = stdout_writes xs @ stdout_writes ys"
  by (induction xs rule: stdout_writes.induct) simp_all

lemma stdout_writes_logs [simp]: "stdout_writes (map (\<lambda>x. Console_log (f x)) xs) = []"
  by (induction xs) simp_all

lemma stdout_writes_replicate [simp]:
  "stdout_writes (replicate n (Stdout_write b)) = replicate n b"
  by (induction n) simp_all

lemma stdout_writes_would_upload [simp]:
  "stdout_writes (concat (map (\<lambda>x. (if v then [Console_log (f x)] else []) @ [Console_log (g x)]) xs)) = []"
  by (induction xs) simp_all

lemma toString_examples:
  "toString 1 = ''1''" "toString 2 = ''2''" "toString 3 = ''3''"
  "toString 41 = ''41''" "toString 42 = ''42''"
  by code_simp+

section \<open>A dry run of the upload\<close>

text \<open>
  Claim C9, as the program has it. In a dry run \<^verbatim>\<open>upload\<close> always returns, with one empty
  result for each assessment it keeps, and what it does is exactly \<open>dry_run_events\<close>. No
  assessment is posted. For each kept assessment, in order, the total of its criterion
  points is printed with its user: the points added from the left with the addition of
  the runtime. The raw console writes are the row of underscores and the dot: the
  progress marks of a real upload (a hash or an \<open>E\<close> for each assessment, the closing bar)
  are not written. The summary counts no failure. What is done first, the messages of the
  filter, the row of underscores and the dot, is what a real upload of the same dataset
  does first.
\<close>

theorem dry_run_prints_totals_and_posts_nothing:
  assumes "dryRun cfg"
  shows "upload w cfg data st =
       (emits (dry_run_events w cfg data) st,
        data\<lparr>assessmentOutputDataList := kept_assessments cfg data\<rparr>,
        Inr (replicate (length (kept_assessments cfg data)) Dry_run_result))
     \<and> (\<forall>e\<in>set (dry_run_events w cfg data). \<not> is_post e)
     \<and> (\<forall>out\<in>set (kept_assessments cfg data).
           Console_log (Would_upload
               (foldl (number_add w) 0 (0 # map (\<lambda>kv. points (snd kv)) (criteria out)))
               (user_id out))
             \<in> set (dry_run_events w cfg data))
     \<and> stdout_writes (dry_run_events w cfg data) =
           replicate (length (kept_assessments cfg data)) (text_encode w (ustr ''_''))
           @ [text_encode w (ustr ''.'')]
     \<and> last (dry_run_events w cfg data)
         = Console_log (Upload_finished 0 (length (kept_assessments cfg data)))
     \<and> prefix (upload_header_events w cfg data) (dry_run_events w cfg data)
     \<and> prefix (trace st @ upload_header_events w cfg data)
         (trace (fst (upload w (cfg\<lparr>dryRun := False\<rparr>) data st)))"
proof (intro conjI)
  show "upload w cfg data st =
       (emits (dry_run_events w cfg data) st,
        data\<lparr>assessmentOutputDataList := kept_assessments cfg data\<rparr>,
        Inr (replicate (length (kept_assessments cfg data)) Dry_run_result))"
    using assms by (rule upload_dry_run)
next
  show "\<forall>e\<in>set (dry_run_events w cfg data). \<not> is_post e"
    by (auto simp: dry_run_events_def upload_header_events_def stdout_text_def split: if_splits)
next
  show "\<forall>out\<in>set (kept_assessments cfg data).
           Console_log (Would_upload
               (foldl (number_add w) 0 (0 # map (\<lambda>kv. points (snd kv)) (criteria out)))
               (user_id out))
             \<in> set (dry_run_events w cfg data)"
    by (auto simp: dry_run_events_def would_upload_points_eq)
next
  show "stdout_writes (dry_run_events w cfg data) =
           replicate (length (kept_assessments cfg data)) (text_encode w (ustr ''_''))
           @ [text_encode w (ustr ''.'')]"
    by (simp add: dry_run_events_def upload_header_events_def stdout_text_def)
next
  show "last (dry_run_events w cfg data)
         = Console_log (Upload_finished 0 (length (kept_assessments cfg data)))"
    by (simp add: dry_run_events_def)
next
  show "prefix (upload_header_events w cfg data) (dry_run_events w cfg data)"
    by (simp add: dry_run_events_def)
next
  show "prefix (trace st @ upload_header_events w cfg data)
         (trace (fst (upload w (cfg\<lparr>dryRun := False\<rparr>) data st)))"
    using upload_header [of st w "cfg\<lparr>dryRun := False\<rparr>" data]
    by (simp only: upload_header_events_mode)
qed

text \<open>The assessment of the example: 3 points and 0 points, so the total printed is 3.\<close>

theorem dry_run_prints_totals_and_posts_nothing_witness:
  "dryRun (example_config\<lparr>dryRun := True\<rparr>)
   \<and> upload example_world (example_config\<lparr>dryRun := True\<rparr>) (example_dataset [''42'']) initial_state
     = (emits [Stdout_write [95], Stdout_write [46], Console_log Empty_line,
               Console_log (Would_upload 3 ''42''), Console_log Empty_line,
               Console_log (Upload_finished 0 1)] initial_state,
        example_dataset [''42''],
        Inr [Dry_run_result])
   \<and> upload_header_events example_world (example_config\<lparr>dryRun := True\<rparr>) (example_dataset [''42''])
     = [Stdout_write [95], Stdout_write [46], Console_log Empty_line]
   \<and> prefix (trace initial_state @ [Stdout_write [95], Stdout_write [46], Console_log Empty_line])
        (trace (fst (upload example_world (example_config\<lparr>dryRun := True, dryRun := False\<rparr>)
           (example_dataset [''42'']) initial_state)))"
proof -
  have h: "dryRun (example_config\<lparr>dryRun := True\<rparr>)"
    by (simp add: example_config_def)
  have k: "kept_assessments (example_config\<lparr>dryRun := True\<rparr>) (example_dataset [''42''])
      = [example_assessment ''42'']"
    by (simp add: kept_assessments_def filtered_out_def example_config_def example_dataset_def)
  have u: "upload_header_events example_world (example_config\<lparr>dryRun := True\<rparr>)
        (example_dataset [''42''])
      = [Stdout_write [95], Stdout_write [46], Console_log Empty_line]"
    unfolding upload_header_events_def k
    by (simp add: filtered_out_def example_config_def example_dataset_def example_assessment_def
        example_world_def stdout_text_def ustr_def)
  have e: "dry_run_events example_world (example_config\<lparr>dryRun := True\<rparr>) (example_dataset [''42''])
      = [Stdout_write [95], Stdout_write [46], Console_log Empty_line,
               Console_log (Would_upload 3 ''42''), Console_log Empty_line,
               Console_log (Upload_finished 0 1)]"
    unfolding dry_run_events_def k u
    by (simp add: example_config_def example_assessment_def example_world_def
        would_upload_points_def Object_values_def)
  have d: "(example_dataset [''42''])\<lparr>assessmentOutputDataList := [example_assessment ''42'']\<rparr>
      = example_dataset [''42'']"
    by (simp add: example_dataset_def)
  note t = dry_run_prints_totals_and_posts_nothing [OF h, of example_world
      "example_dataset [''42'']" initial_state]
  from t have "upload example_world (example_config\<lparr>dryRun := True\<rparr>) (example_dataset [''42'']) initial_state
     = (emits (dry_run_events example_world (example_config\<lparr>dryRun := True\<rparr>) (example_dataset [''42''])) initial_state,
        (example_dataset [''42''])\<lparr>assessmentOutputDataList :=
           kept_assessments (example_config\<lparr>dryRun := True\<rparr>) (example_dataset [''42''])\<rparr>,
        Inr (replicate (length (kept_assessments (example_config\<lparr>dryRun := True\<rparr>) (example_dataset [''42'']))) Dry_run_result))"
    by (rule conjunct1)
  moreover from t have "prefix (trace initial_state
          @ upload_header_events example_world (example_config\<lparr>dryRun := True\<rparr>)
              (example_dataset [''42'']))
        (trace (fst (upload example_world (example_config\<lparr>dryRun := True, dryRun := False\<rparr>)
           (example_dataset [''42'']) initial_state)))"
    by simp
  ultimately show ?thesis
    unfolding e k d u using h u by simp
qed

text \<open>
  The claim as stated asks for the console output of a dry run to have the shape of that
  of a real upload. For the assessment of the example, the raw console writes of the dry
  run are the underscore and the dot; those of the real upload are followed by the hash
  and the bar.
\<close>

theorem dry_run_console_differs_from_real_upload:
  "stdout_writes (trace (fst (upload example_world (example_config\<lparr>dryRun := True\<rparr>)
       (example_dataset [''42'']) initial_state))) = [[95], [46]]
   \<and> stdout_writes (trace (fst (upload example_world example_config
       (example_dataset [''42'']) initial_state))) = [[95], [46], [35], [124]]"
  by (simp add: example_world_def example_config_def example_dataset_def example_assessment_def
      initial_state_def upload_def filtered_out_def stdout_text_def ustr_def
      would_upload_points_def Object_values_def emit_def console_log_def log_if_def)

section \<open>The argument of the upload\<close>

text \<open>
  Claim C10. After \<^verbatim>\<open>upload\<close>, also when a post has thrown, the object it was given differs
  from the one before in its list of assessments only, which now holds the assessments of
  the users the filter lets through, in their order: every assessment of a filtered user
  is gone from the caller's object.
\<close>

theorem upload_reassigns_the_list_of_its_argument:
  "fst (snd (upload w cfg data st)) =
     data\<lparr>assessmentOutputDataList :=
            filter (\<lambda>out. \<not> filtered_out cfg (user_id out)) (assessmentOutputDataList data)\<rparr>
   \<and> (\<forall>out\<in>set (assessmentOutputDataList (fst (snd (upload w cfg data st)))).
         \<not> filtered_out cfg (user_id out))"
  by (simp add: upload_argument)

text \<open>With the users restricted to 42, the assessment of user 41 is removed.\<close>

theorem upload_reassigns_the_list_of_its_argument_witness:
  "filtered_out (example_config\<lparr>users := Some [42]\<rparr>) ''41''
   \<and> \<not> filtered_out (example_config\<lparr>users := Some [42]\<rparr>) ''42''
   \<and> fst (snd (upload example_world (example_config\<lparr>users := Some [42]\<rparr>)
              (example_dataset [''41'', ''42'']) initial_state))
     = example_dataset [''42'']
   \<and> map user_id (assessmentOutputDataList (example_dataset [''41'', ''42''])) = [''41'', ''42'']
   \<and> map user_id (assessmentOutputDataList (example_dataset [''42''])) = [''42'']"
proof -
  have f: "filtered_out (example_config\<lparr>users := Some [42]\<rparr>) ''41''"
    "\<not> filtered_out (example_config\<lparr>users := Some [42]\<rparr>) ''42''"
    by (simp_all add: filtered_out_def example_config_def toString_examples)
  have l: "data\<lparr>assessmentOutputDataList :=
            filter (\<lambda>out. \<not> filtered_out (example_config\<lparr>users := Some [42]\<rparr>) (user_id out))
              (assessmentOutputDataList data)\<rparr> = example_dataset [''42'']"
    if "data = example_dataset [''41'', ''42'']" for data
    using f that by (simp add: example_dataset_def example_assessment_def)
  from upload_reassigns_the_list_of_its_argument [of example_world
      "example_config\<lparr>users := Some [42]\<rparr>" "example_dataset [''41'', ''42'']" initial_state]
  show ?thesis
    using f by (simp add: l) (simp add: example_dataset_def example_assessment_def)
qed

section \<open>One submission\<close>

lemma makeTempDir_eq:
  "makeTempDir st =
     (next_dir st,
      emits [Make_temp_dir (next_dir st)]
        (st\<lparr>dirs := insert (next_dir st) (dirs st),
            undeletable := undeletable st - {next_dir st},
            next_dir := Suc (next_dir st)\<rparr>))"
  by (simp add: makeTempDir_def emit_emits)

lemma remove_recursive_eq:
  "remove_recursive d st =
     (if d \<in> undeletable st then (emits [Remove_dir d] st, Inl Remove_failed)
      else (emits [Remove_dir d] (st\<lparr>dirs := dirs st - {d}\<rparr>), Inr ()))"
  by (simp add: remove_recursive_def emit_emits)

lemma remove_recursive_steps:
  "trace (fst (remove_recursive d st)) = trace st @ [Remove_dir d]"
  "dirs (fst (remove_recursive d st)) = (if d \<in> undeletable st then dirs st else dirs st - {d})"
  "snd (remove_recursive d st) = (if d \<in> undeletable st then Inl Remove_failed else Inr ())"
  by (simp_all add: remove_recursive_eq)

text \<open>The three ways through the guarded block.\<close>

lemma submission_body_cases:
  obtains (rest_rejects)
      "submission_body w cfg a i s workDir st
         = (emit (Get_submission (user_uid s)) st, Inl Fetch_failed)"
  | (download_error) atts e where
      "rest w i = Rest_attachments atts"
      "snd (download_attachments w cfg i workDir 0 atts (emit (Get_submission (user_uid s)) st)) = Inl e"
      "submission_body w cfg a i s workDir st
         = (fst (download_attachments w cfg i workDir 0 atts (emit (Get_submission (user_uid s)) st)),
            Inl e)"
  | (criteria_loop) atts where
      "rest w i = Rest_attachments atts"
      "snd (download_attachments w cfg i workDir 0 atts (emit (Get_submission (user_uid s)) st)) = Inr ()"
      "submission_body w cfg a i s workDir st
         = evaluate_criteria w cfg a i s workDir 0 (rubric_criteria (rubric a))
             \<lparr>user_id = user_uid s, assessment_type = ''grading'', criteria = []\<rparr>
             (fst (download_attachments w cfg i workDir 0 atts (emit (Get_submission (user_uid s)) st)))"
proof (cases "rest w i")
  case Rest_rejects
  with rest_rejects show ?thesis by (simp add: submission_body_def)
next
  case (Rest_attachments atts)
  obtain st2 r where d: "download_attachments w cfg i workDir 0 atts
      (emit (Get_submission (user_uid s)) st) = (st2, r)"
    by (cases "download_attachments w cfg i workDir 0 atts (emit (Get_submission (user_uid s)) st)")
  show ?thesis
  proof (cases r)
    case (Inl e)
    with Rest_attachments d download_error [of atts e] show ?thesis
      by (simp add: submission_body_def)
  next
    case (Inr u)
    with Rest_attachments d criteria_loop [of atts] show ?thesis
      by (simp add: submission_body_def)
  qed
qed

lemma submission_body_dirs:
  "dirs (fst (submission_body w cfg a i s workDir st)) = dirs st"
  by (cases rule: submission_body_cases [of w cfg a i s workDir st])
     (simp_all add: download_attachments_dirs evaluate_criteria_dirs emit_emits)

lemma submission_body_undeletable_subset:
  "undeletable (fst (submission_body w cfg a i s workDir st)) \<subseteq> insert workDir (undeletable st)"
proof (cases rule: submission_body_cases [of w cfg a i s workDir st])
  case rest_rejects
  then show ?thesis by (auto simp: emit_emits)
next
  case (download_error atts e)
  then show ?thesis by (auto simp: download_attachments_undeletable emit_emits)
next
  case (criteria_loop atts)
  let ?st2 = "fst (download_attachments w cfg i workDir 0 atts (emit (Get_submission (user_uid s)) st))"
  have "undeletable ?st2 = undeletable st"
    by (simp add: download_attachments_undeletable emit_emits)
  with evaluate_criteria_undeletable_subset [of w cfg a i s workDir 0 "rubric_criteria (rubric a)"
      "\<lparr>user_id = user_uid s, assessment_type = ''grading'', criteria = []\<rparr>" ?st2]
  show ?thesis by (simp add: criteria_loop(3))
qed

lemma submission_body_undeletable:
  assumes "\<forall>j<length (rubric_criteria (rubric a)). \<not> leaves_undeletable (child w i j)"
  shows "undeletable (fst (submission_body w cfg a i s workDir st)) = undeletable st"
proof (cases rule: submission_body_cases [of w cfg a i s workDir st])
  case rest_rejects
  then show ?thesis by (simp add: emit_emits)
next
  case (download_error atts e)
  then show ?thesis by (simp add: download_attachments_undeletable emit_emits)
next
  case (criteria_loop atts)
  from assms
  have "\<forall>k<length (rubric_criteria (rubric a)). \<not> leaves_undeletable (child w i (0 + k))"
    by simp
  from evaluate_criteria_undeletable [OF this]
  show ?thesis
    by (simp add: criteria_loop(3) download_attachments_undeletable emit_emits)
qed

lemma submission_body_prefix:
  "prefix (trace st) (trace (fst (submission_body w cfg a i s workDir st)))"
proof -
  let ?st1 = "emit (Get_submission (user_uid s)) st"
  have 1: "prefix (trace st) (trace ?st1)" by (simp add: emit_emits)
  show ?thesis
  proof (cases rule: submission_body_cases [of w cfg a i s workDir st])
    case rest_rejects
    with 1 show ?thesis by simp
  next
    case (download_error atts e)
    from download_attachments_prefix [of ?st1 w cfg i workDir 0 atts] 1
    show ?thesis unfolding download_error(3) fst_conv by (rule prefix_order.trans [rotated])
  next
    case (criteria_loop atts)
    let ?st2 = "fst (download_attachments w cfg i workDir 0 atts ?st1)"
    from download_attachments_prefix [of ?st1 w cfg i workDir 0 atts] 1
    have "prefix (trace st) (trace ?st2)" by (rule prefix_order.trans [rotated])
    with evaluate_criteria_prefix [of ?st2 w cfg a i s workDir 0 "rubric_criteria (rubric a)"
        "\<lparr>user_id = user_uid s, assessment_type = ''grading'', criteria = []\<rparr>"]
    show ?thesis unfolding criteria_loop(3) by (rule prefix_order.trans [rotated])
  qed
qed

lemma submission_body_user_id:
  assumes "snd (submission_body w cfg a i s workDir st) = Inr out"
  shows "user_id out = user_uid s"
proof (cases rule: submission_body_cases [of w cfg a i s workDir st])
  case rest_rejects
  with assms show ?thesis by simp
next
  case (download_error atts e)
  with assms show ?thesis by simp
next
  case (criteria_loop atts)
  with assms evaluate_criteria_user_id [of w cfg a i s workDir 0 "rubric_criteria (rubric a)"
      "\<lparr>user_id = user_uid s, assessment_type = ''grading'', criteria = []\<rparr>" _ out]
  show ?thesis by simp
qed

lemma submission_body_download_fails:
  assumes "rest w i = Rest_attachments atts" and "n < length atts"
    and "download_fails (download w i n)"
  shows "\<exists>e. snd (submission_body w cfg a i s workDir st) = Inl e"
proof (cases rule: submission_body_cases [of w cfg a i s workDir st])
  case rest_rejects
  then show ?thesis by simp
next
  case (download_error atts' e)
  then show ?thesis by simp
next
  case (criteria_loop atts')
  with assms(1) have "atts' = atts" by simp
  from download_attachments_fails [of n atts w i 0 cfg workDir "emit (Get_submission (user_uid s)) st"]
    assms(2,3)
  obtain e where "snd (download_attachments w cfg i workDir 0 atts (emit (Get_submission (user_uid s)) st)) = Inl e"
    by auto
  with criteria_loop(2) \<open>atts' = atts\<close> show ?thesis by simp
qed

lemma submission_body_download_fails_undeletable:
  assumes "rest w i = Rest_attachments atts" and "n < length atts"
    and "download_fails (download w i n)"
  shows "undeletable (fst (submission_body w cfg a i s workDir st)) = undeletable st"
proof (cases rule: submission_body_cases [of w cfg a i s workDir st])
  case rest_rejects
  then show ?thesis by (simp add: emit_emits)
next
  case (download_error atts' e)
  then show ?thesis by (simp add: download_attachments_undeletable emit_emits)
next
  case (criteria_loop atts')
  with assms(1) have "atts' = atts" by simp
  from download_attachments_fails [of n atts w i 0 cfg workDir "emit (Get_submission (user_uid s)) st"]
    assms(2,3)
  obtain e where "snd (download_attachments w cfg i workDir 0 atts (emit (Get_submission (user_uid s)) st)) = Inl e"
    by auto
  with criteria_loop(2) \<open>atts' = atts\<close> show ?thesis by simp
qed

text \<open>The five ways through the body of the submissions loop. \<open>guarded\<close> is the block
  under \<^verbatim>\<open>try\<close>, run in the directory just made.\<close>

lemma evaluate_submission_cases:
  fixes w cfg a i s st
  defines "guarded \<equiv> submission_body w cfg a i s (next_dir st)
      (snd (makeTempDir (console_log
         (Evaluating_submission (Suc i) (length (submissions a)) (submission_id s) (user_name s)) st)))"
  obtains (skipped)
      "filtered_out cfg (user_uid s)"
      "evaluate_submission w cfg a i s st
         = (log_if (verbose cfg)
              (Skipping_submission (Suc i) (length (submissions a)) (submission_id s) (user_name s)) st,
            Inr None)"
  | (no_dir)
      "\<not> filtered_out cfg (user_uid s)" "\<not> mktemp_ok w i"
      "evaluate_submission w cfg a i s st
         = (console_log
              (Evaluating_submission (Suc i) (length (submissions a)) (submission_id s) (user_name s)) st,
            Inl Mktemp_failed)"
  | (kept)
      "\<not> filtered_out cfg (user_uid s)" "mktemp_ok w i"
      "next_dir st \<in> undeletable (fst guarded)"
      "evaluate_submission w cfg a i s st
         = (emit (Remove_dir (next_dir st)) (log_if (verbose cfg) Cleaning_up (fst guarded)),
            Inl Remove_failed)"
  | (aborted) e where
      "\<not> filtered_out cfg (user_uid s)" "mktemp_ok w i"
      "next_dir st \<notin> undeletable (fst guarded)" "snd guarded = Inl e"
      "evaluate_submission w cfg a i s st
         = (fst (remove_recursive (next_dir st) (log_if (verbose cfg) Cleaning_up (fst guarded))),
            Inl e)"
  | (assessed) out where
      "\<not> filtered_out cfg (user_uid s)" "mktemp_ok w i"
      "next_dir st \<notin> undeletable (fst guarded)" "snd guarded = Inr out"
      "evaluate_submission w cfg a i s st
         = (log_if (verbose cfg) (Assessment_dump out)
              (fst (remove_recursive (next_dir st) (log_if (verbose cfg) Cleaning_up (fst guarded)))),
            Inr (Some out))"
proof (cases "filtered_out cfg (user_uid s)")
  case True
  with skipped show ?thesis by (simp add: evaluate_submission_def)
next
  case nf: False
  show ?thesis
  proof (cases "mktemp_ok w i")
    case False
    with nf no_dir show ?thesis by (simp add: evaluate_submission_def)
  next
    case ok: True
    let ?st1 = "console_log
         (Evaluating_submission (Suc i) (length (submissions a)) (submission_id s) (user_name s)) st"
    have m: "makeTempDir ?st1 = (next_dir st, snd (makeTempDir ?st1))"
      by (simp add: makeTempDir_eq console_log_emits)
    obtain st3 r where b: "guarded = (st3, r)" by (cases guarded)
    then have b': "submission_body w cfg a i s (next_dir st) (snd (makeTempDir ?st1)) = (st3, r)"
      by (simp add: guarded_def)
    let ?rm = "remove_recursive (next_dir st) (log_if (verbose cfg) Cleaning_up st3)"
    have e: "evaluate_submission w cfg a i s st =
        (case ?rm of
           (st4, Inl e) \<Rightarrow> (st4, Inl e)
         | (st4, Inr u) \<Rightarrow>
             (case r of
                Inl e \<Rightarrow> (st4, Inl e)
              | Inr out \<Rightarrow> (log_if (verbose cfg) (Assessment_dump out) st4, Inr (Some out))))"
      unfolding evaluate_submission_def Let_def using nf ok
      by (subst m) (simp add: b')
    show ?thesis
    proof (cases "next_dir st \<in> undeletable st3")
      case stays: True
      then have "?rm = (emit (Remove_dir (next_dir st)) (log_if (verbose cfg) Cleaning_up st3),
          Inl Remove_failed)"
        by (simp add: remove_recursive_def log_if_emits)
      with nf ok b e stays kept show ?thesis by simp
    next
      case goes: False
      then have rm: "?rm = (fst ?rm, Inr ())"
        by (simp add: remove_recursive_def log_if_emits)
      show ?thesis
      proof (cases r)
        case (Inl err)
        from e have "evaluate_submission w cfg a i s st = (fst ?rm, Inl err)"
          by (subst (asm) rm) (simp add: Inl)
        with nf ok b goes Inl aborted [of err] show ?thesis by simp
      next
        case (Inr out)
        from e have "evaluate_submission w cfg a i s st
            = (log_if (verbose cfg) (Assessment_dump out) (fst ?rm), Inr (Some out))"
          by (subst (asm) rm) (simp add: Inr)
        with nf ok b goes Inr assessed [of out] show ?thesis by simp
      qed
    qed
  qed
qed

lemma guarded_state:
  fixes w cfg a i s st
  defines "guarded \<equiv> submission_body w cfg a i s (next_dir st)
      (snd (makeTempDir (console_log
         (Evaluating_submission (Suc i) (length (submissions a)) (submission_id s) (user_name s)) st)))"
  shows "dirs (fst guarded) = insert (next_dir st) (dirs st)"
    and "Make_temp_dir (next_dir st) \<in> set (trace (fst guarded))"
proof -
  let ?st2 = "snd (makeTempDir (console_log
         (Evaluating_submission (Suc i) (length (submissions a)) (submission_id s) (user_name s)) st))"
  have d: "dirs ?st2 = insert (next_dir st) (dirs st)"
    and t: "Make_temp_dir (next_dir st) \<in> set (trace ?st2)"
    by (simp_all add: makeTempDir_eq console_log_emits)
  show "dirs (fst guarded) = insert (next_dir st) (dirs st)"
    unfolding guarded_def by (simp only: submission_body_dirs d)
  from submission_body_prefix [of ?st2 w cfg a i s "next_dir st"] t
  show "Make_temp_dir (next_dir st) \<in> set (trace (fst guarded))"
    unfolding guarded_def by (auto dest: set_mono_prefix)
qed

text \<open>The directory just made is empty, so only a test command of this submission can make
  its removal fail.\<close>

lemma guarded_undeletable:
  fixes w cfg a i s st
  defines "guarded \<equiv> submission_body w cfg a i s (next_dir st)
      (snd (makeTempDir (console_log
         (Evaluating_submission (Suc i) (length (submissions a)) (submission_id s) (user_name s)) st)))"
  shows "\<forall>j<length (rubric_criteria (rubric a)). \<not> leaves_undeletable (child w i j)
           \<Longrightarrow> next_dir st \<notin> undeletable (fst guarded)"
    and "rest w i = Rest_attachments atts \<Longrightarrow> n < length atts
           \<Longrightarrow> download_fails (download w i n) \<Longrightarrow> next_dir st \<notin> undeletable (fst guarded)"
proof -
  let ?st2 = "snd (makeTempDir (console_log
         (Evaluating_submission (Suc i) (length (submissions a)) (submission_id s) (user_name s)) st))"
  have u: "next_dir st \<notin> undeletable ?st2"
    by (simp add: makeTempDir_eq console_log_emits)
  show "next_dir st \<notin> undeletable (fst guarded)"
    if "\<forall>j<length (rubric_criteria (rubric a)). \<not> leaves_undeletable (child w i j)"
    unfolding guarded_def using u by (simp add: submission_body_undeletable [OF that])
  show "next_dir st \<notin> undeletable (fst guarded)"
    if "rest w i = Rest_attachments atts" "n < length atts" "download_fails (download w i n)"
    unfolding guarded_def using u
    by (simp add: submission_body_download_fails_undeletable [OF that])
qed

lemma evaluate_submission_dirs:
  "dirs (fst (evaluate_submission w cfg a i s st)) \<subseteq> insert (next_dir st) (dirs st)"
proof (cases rule: evaluate_submission_cases [of cfg s w a i st])
  case skipped
  then show ?thesis by (auto simp: log_if_emits)
next
  case no_dir
  then show ?thesis by (auto simp: console_log_emits)
next
  case kept
  then show ?thesis
    by (simp add: guarded_state(1) emit_emits log_if_emits)
next
  case (aborted e)
  then show ?thesis
    by (auto simp: guarded_state(1) remove_recursive_steps log_if_emits)
next
  case (assessed out)
  then show ?thesis
    by (auto simp: guarded_state(1) remove_recursive_steps log_if_emits)
qed

text \<open>If the directory is still there afterwards, its removal was rejected.\<close>

lemma evaluate_submission_kept:
  assumes "\<not> filtered_out cfg (user_uid s)" and "mktemp_ok w i"
    and "next_dir st \<in> dirs (fst (evaluate_submission w cfg a i s st))"
  shows "snd (evaluate_submission w cfg a i s st) = Inl Remove_failed"
proof (cases rule: evaluate_submission_cases [of cfg s w a i st])
  case skipped
  with assms show ?thesis by simp
next
  case no_dir
  with assms show ?thesis by simp
next
  case kept
  then show ?thesis by simp
next
  case (aborted e)
  with assms(3) show ?thesis
    by (simp add: guarded_state(1) remove_recursive_steps log_if_emits)
next
  case (assessed out)
  with assms(3) show ?thesis
    by (simp add: guarded_state(1) remove_recursive_steps log_if_emits)
qed

lemma evaluate_submission_removed:
  fixes w cfg a i s st
  defines "guarded \<equiv> submission_body w cfg a i s (next_dir st)
      (snd (makeTempDir (console_log
         (Evaluating_submission (Suc i) (length (submissions a)) (submission_id s) (user_name s)) st)))"
  assumes "next_dir st \<notin> undeletable (fst guarded)"
  shows "dirs (fst (evaluate_submission w cfg a i s st)) \<subseteq> dirs st"
    and "\<not> filtered_out cfg (user_uid s) \<Longrightarrow> mktemp_ok w i
           \<Longrightarrow> next_dir st \<notin> dirs (fst (evaluate_submission w cfg a i s st))"
proof -
  have "dirs (fst (evaluate_submission w cfg a i s st)) \<subseteq> dirs st
      \<and> (\<not> filtered_out cfg (user_uid s) \<and> mktemp_ok w i
           \<longrightarrow> next_dir st \<notin> dirs (fst (evaluate_submission w cfg a i s st)))"
  proof (cases rule: evaluate_submission_cases [of cfg s w a i st])
    case skipped
    then show ?thesis by (simp add: log_if_emits)
  next
    case no_dir
    then show ?thesis by (simp add: console_log_emits)
  next
    case kept
    with assms show ?thesis by simp
  next
    case (aborted e)
    then show ?thesis
      by (auto simp: guarded_state(1) remove_recursive_steps log_if_emits)
  next
    case (assessed out)
    then show ?thesis
      by (auto simp: guarded_state(1) remove_recursive_steps log_if_emits)
  qed
  then show "dirs (fst (evaluate_submission w cfg a i s st)) \<subseteq> dirs st"
    and "\<not> filtered_out cfg (user_uid s) \<Longrightarrow> mktemp_ok w i
           \<Longrightarrow> next_dir st \<notin> dirs (fst (evaluate_submission w cfg a i s st))"
    by simp_all
qed

lemma evaluate_submission_trace:
  assumes "\<not> filtered_out cfg (user_uid s)" and "mktemp_ok w i"
  shows "Make_temp_dir (next_dir st) \<in> set (trace (fst (evaluate_submission w cfg a i s st)))"
    and "Remove_dir (next_dir st) \<in> set (trace (fst (evaluate_submission w cfg a i s st)))"
proof -
  have "Make_temp_dir (next_dir st) \<in> set (trace (fst (evaluate_submission w cfg a i s st)))
      \<and> Remove_dir (next_dir st) \<in> set (trace (fst (evaluate_submission w cfg a i s st)))"
  proof (cases rule: evaluate_submission_cases [of cfg s w a i st])
    case skipped
    with assms show ?thesis by simp
  next
    case no_dir
    with assms show ?thesis by simp
  next
    case kept
    then show ?thesis
      using guarded_state(2) [of st w cfg a i s]
      by (simp add: emit_emits log_if_emits)
  next
    case (aborted e)
    then show ?thesis
      using guarded_state(2) [of st w cfg a i s]
      by (simp add: remove_recursive_steps log_if_emits)
  next
    case (assessed out)
    then show ?thesis
      using guarded_state(2) [of st w cfg a i s]
      by (simp add: remove_recursive_steps log_if_emits)
  qed
  then show "Make_temp_dir (next_dir st) \<in> set (trace (fst (evaluate_submission w cfg a i s st)))"
    and "Remove_dir (next_dir st) \<in> set (trace (fst (evaluate_submission w cfg a i s st)))"
    by simp_all
qed

lemma evaluate_submission_result:
  "(filtered_out cfg (user_uid s) \<longrightarrow> snd (evaluate_submission w cfg a i s st) = Inr None)
   \<and> (\<not> filtered_out cfg (user_uid s) \<longrightarrow> snd (evaluate_submission w cfg a i s st) \<noteq> Inr None)
   \<and> (\<forall>out. snd (evaluate_submission w cfg a i s st) = Inr (Some out) \<longrightarrow> user_id out = user_uid s)"
proof (cases rule: evaluate_submission_cases [of cfg s w a i st])
  case skipped
  then show ?thesis by simp
next
  case no_dir
  then show ?thesis by simp
next
  case kept
  then show ?thesis by simp
next
  case (aborted e)
  then show ?thesis by simp
next
  case (assessed out)
  from submission_body_user_id [OF assessed(4)] assessed show ?thesis by simp
qed

lemma evaluate_submission_download_fails:
  assumes "\<not> filtered_out cfg (user_uid s)" and "mktemp_ok w i"
    and "rest w i = Rest_attachments atts" and "n < length atts"
    and "download_fails (download w i n)"
  shows "\<exists>e. snd (evaluate_submission w cfg a i s st) = Inl e"
proof (cases rule: evaluate_submission_cases [of cfg s w a i st])
  case skipped
  with assms show ?thesis by simp
next
  case no_dir
  with assms show ?thesis by simp
next
  case kept
  then show ?thesis by simp
next
  case (aborted e)
  then show ?thesis by simp
next
  case (assessed out)
  from submission_body_download_fails [OF assms(3,4,5)] assessed(4) show ?thesis
    by (metis sum.distinct(1))
qed

section \<open>The loop over the submissions\<close>

lemma evaluate_submissions_step:
  "evaluate_submissions w cfg a i (s # ss) acc st =
     (case snd (evaluate_submission w cfg a i s st) of
        Inl e \<Rightarrow> (fst (evaluate_submission w cfg a i s st), Inl e)
      | Inr None \<Rightarrow>
          evaluate_submissions w cfg a (Suc i) ss acc (fst (evaluate_submission w cfg a i s st))
      | Inr (Some out) \<Rightarrow>
          evaluate_submissions w cfg a (Suc i) ss (acc @ [out])
            (fst (evaluate_submission w cfg a i s st)))"
  by (cases "evaluate_submission w cfg a i s st") (simp split: sum.split option.split)

lemma evaluate_submissions_dirs:
  "(\<forall>k<length ss. \<forall>j<length (rubric_criteria (rubric a)).
        \<not> leaves_undeletable (child w (i + k) j)) \<Longrightarrow>
     dirs (fst (evaluate_submissions w cfg a i ss acc st)) \<subseteq> dirs st"
proof (induction ss arbitrary: i acc st)
  case Nil
  show ?case by simp
next
  case (Cons s ss)
  from Cons.prems
  have h: "\<forall>j<length (rubric_criteria (rubric a)). \<not> leaves_undeletable (child w i j)"
    by fastforce
  from Cons.prems
  have t: "\<forall>k<length ss. \<forall>j<length (rubric_criteria (rubric a)).
      \<not> leaves_undeletable (child w (Suc i + k) j)"
    by fastforce
  let ?st1 = "fst (evaluate_submission w cfg a i s st)"
  have 1: "dirs ?st1 \<subseteq> dirs st"
    using guarded_undeletable(1) [OF h] by (rule evaluate_submission_removed(1))
  show ?case
  proof (cases "snd (evaluate_submission w cfg a i s st)")
    case (Inl e)
    with 1 show ?thesis
      by (simp del: evaluate_submissions.simps add: evaluate_submissions_step)
  next
    case (Inr r)
    have "dirs (fst (evaluate_submissions w cfg a i (s # ss) acc st)) \<subseteq> dirs ?st1"
      using Inr Cons.IH [OF t, of _ ?st1]
      by (cases r) (simp_all del: evaluate_submissions.simps add: evaluate_submissions_step)
    then show ?thesis using 1 by (rule subset_trans)
  qed
qed

lemma evaluate_submissions_users:
  "snd (evaluate_submissions w cfg a i ss acc st) = Inr l \<Longrightarrow>
     map user_id l = map user_id acc @ filter (\<lambda>u. \<not> filtered_out cfg u) (map user_uid ss)"
proof (induction ss arbitrary: i acc st)
  case Nil
  then show ?case by simp
next
  case (Cons s ss)
  note r = evaluate_submission_result [of cfg s w a i st]
  show ?case
  proof (cases "snd (evaluate_submission w cfg a i s st)")
    case (Inl e)
    with Cons.prems show ?thesis
      by (simp del: evaluate_submissions.simps add: evaluate_submissions_step)
  next
    case (Inr x)
    show ?thesis
    proof (cases x)
      case None
      with Inr r have f: "filtered_out cfg (user_uid s)" by auto
      from Cons.prems Inr None
      have "snd (evaluate_submissions w cfg a (Suc i) ss acc
          (fst (evaluate_submission w cfg a i s st))) = Inr l"
        by (simp del: evaluate_submissions.simps add: evaluate_submissions_step)
      from Cons.IH [OF this] f show ?thesis by simp
    next
      case (Some out)
      with Inr r have f: "\<not> filtered_out cfg (user_uid s)" and u: "user_id out = user_uid s"
        by auto
      from Cons.prems Inr Some
      have "snd (evaluate_submissions w cfg a (Suc i) ss (acc @ [out])
          (fst (evaluate_submission w cfg a i s st))) = Inr l"
        by (simp del: evaluate_submissions.simps add: evaluate_submissions_step)
      from Cons.IH [OF this] f u show ?thesis by simp
    qed
  qed
qed

lemma evaluate_submissions_append:
  "evaluate_submissions w cfg a i pre acc0 st0 = (st, Inr acc) \<Longrightarrow>
     evaluate_submissions w cfg a i (pre @ ss) acc0 st0
       = evaluate_submissions w cfg a (i + length pre) ss acc st"
proof (induction pre arbitrary: i acc0 st0)
  case Nil
  then show ?case by simp
next
  case (Cons s pre)
  show ?case
  proof (cases "snd (evaluate_submission w cfg a i s st0)")
    case (Inl e)
    with Cons.prems show ?thesis
      by (simp del: evaluate_submissions.simps add: evaluate_submissions_step)
  next
    case (Inr x)
    show ?thesis
    proof (cases x)
      case None
      with Inr Cons.prems
      have "evaluate_submissions w cfg a (Suc i) pre acc0
          (fst (evaluate_submission w cfg a i s st0)) = (st, Inr acc)"
        by (simp del: evaluate_submissions.simps add: evaluate_submissions_step)
      from Cons.IH [OF this] Inr None show ?thesis
        by (simp del: evaluate_submissions.simps add: evaluate_submissions_step)
    next
      case (Some out)
      with Inr Cons.prems
      have "evaluate_submissions w cfg a (Suc i) pre (acc0 @ [out])
          (fst (evaluate_submission w cfg a i s st0)) = (st, Inr acc)"
        by (simp del: evaluate_submissions.simps add: evaluate_submissions_step)
      from Cons.IH [OF this] Inr Some show ?thesis
        by (simp del: evaluate_submissions.simps add: evaluate_submissions_step)
    qed
  qed
qed

lemma evaluate_cases:
  obtains (thrown) e where
      "snd (evaluate_submissions w cfg a 0 (submissions a) [] st) = Inl e"
      "evaluate w cfg a rid st = (fst (evaluate_submissions w cfg a 0 (submissions a) [] st), Inl e)"
  | (returned) l where
      "snd (evaluate_submissions w cfg a 0 (submissions a) [] st) = Inr l"
      "dirs (fst (evaluate w cfg a rid st))
         = dirs (fst (evaluate_submissions w cfg a 0 (submissions a) [] st))"
      "\<exists>d. snd (evaluate w cfg a rid st) = Inr d \<and> assessmentOutputDataList d = l"
proof (cases "evaluate_submissions w cfg a 0 (submissions a) [] st")
  case (Pair st1 r)
  show ?thesis
  proof (cases r)
    case (Inl e)
    with Pair thrown [of e] show ?thesis by (simp add: evaluate_def)
  next
    case (Inr l)
    with Pair returned [of l] show ?thesis by (simp add: evaluate_def Let_def log_if_emits)
  qed
qed

lemma evaluate_dirs:
  assumes "\<forall>k<length (submissions a). \<forall>j<length (rubric_criteria (rubric a)).
      \<not> leaves_undeletable (child w k j)"
  shows "dirs (fst (evaluate w cfg a rid st)) \<subseteq> dirs st"
proof -
  from assms
  have "\<forall>k<length (submissions a). \<forall>j<length (rubric_criteria (rubric a)).
      \<not> leaves_undeletable (child w (0 + k) j)"
    by simp
  from evaluate_submissions_dirs [OF this]
  show ?thesis
    by (cases rule: evaluate_cases [of w cfg a st rid]) simp_all
qed

lemma evaluate_users:
  assumes "snd (evaluate w cfg a rid st) = Inr d"
  shows "map user_id (assessmentOutputDataList d)
     = filter (\<lambda>u. \<not> filtered_out cfg u) (map user_uid (submissions a))"
proof (cases rule: evaluate_cases [of w cfg a st rid])
  case (thrown e)
  with assms show ?thesis by simp
next
  case (returned l)
  with assms have "assessmentOutputDataList d = l" by auto
  with evaluate_submissions_users [OF returned(1)] show ?thesis by simp
qed

lemma filtered_out_iff:
  "filtered_out cfg uid \<longleftrightarrow>
     (\<exists>us. users cfg = Some us \<and> uid \<notin> toString ` set us) \<or> uid \<in> toString ` set (exceptUsers cfg)"
proof -
  have ex: "list_ex (\<lambda>user. toString user = uid) xs \<longleftrightarrow> uid \<in> toString ` set xs" for xs
    by (auto simp: list_ex_iff)
  have all: "list_all (\<lambda>user. toString user \<noteq> uid) xs \<longleftrightarrow> uid \<notin> toString ` set xs" for xs
    by (auto simp: list_all_iff)
  show ?thesis
    by (cases "users cfg") (simp_all add: filtered_out_def ex all)
qed

section \<open>The working directory\<close>

text \<open>The submission of the example, with a test command that leaves something in the
  directory that cannot be deleted.\<close>

lemma littering_run:
  "dirs (fst (evaluate_submission littering_world example_config (example_assignment [''42'']) 0
             (example_submission ''42'') initial_state)) = {0}"
  "snd (evaluate_submission littering_world example_config (example_assignment [''42'']) 0
             (example_submission ''42'') initial_state) = Inl Remove_failed"
  by (simp_all add: littering_world_def example_defs model_defs run_defs)

text \<open>
  The claim as stated has the directory gone on every path. In that run the removal in the
  \<^verbatim>\<open>finally\<close> block is rejected: the directory made for the submission, the first one, is
  still there when the evaluation of the submission is over.
\<close>

theorem undeletable_content_keeps_the_working_directory:
  "next_dir initial_state = 0
   \<and> 0 \<in> dirs (fst (evaluate_submission littering_world example_config
         (example_assignment [''42'']) 0 (example_submission ''42'') initial_state))
   \<and> snd (evaluate_submission littering_world example_config (example_assignment [''42'']) 0
         (example_submission ''42'') initial_state) = Inl Remove_failed"
  by (simp add: littering_run) (simp add: initial_state_def)

text \<open>
  Claim C4, as the program has it. If the submission is not filtered out and the directory
  can be made, the removal of the directory made for it (\<open>next_dir st\<close>) is attempted when
  the evaluation of the submission is over, whether it produced an assessment or threw,
  for every failure of the requests, the downloads, the files, the child and its pipes.
  If the directory is still there afterwards, the removal was rejected, and that error
  leaves the loop over the submissions. The directory is gone whenever no test command of
  the submission has left in it something that cannot be deleted; then the evaluation of
  the submission leaves no directory behind that was not there before, and if that holds
  of all submissions neither does the whole of \<^verbatim>\<open>evaluate\<close>, however it ends.
\<close>

theorem working_directory_is_removed_unless_removal_fails:
  "dirs (fst (evaluate_submission w cfg a i s st)) \<subseteq> insert (next_dir st) (dirs st)
   \<and> (\<not> filtered_out cfg (user_uid s) \<and> mktemp_ok w i \<longrightarrow>
        Make_temp_dir (next_dir st) \<in> set (trace (fst (evaluate_submission w cfg a i s st)))
        \<and> Remove_dir (next_dir st) \<in> set (trace (fst (evaluate_submission w cfg a i s st)))
        \<and> (next_dir st \<in> dirs (fst (evaluate_submission w cfg a i s st)) \<longrightarrow>
             snd (evaluate_submission w cfg a i s st) = Inl Remove_failed
             \<and> evaluate_submissions w cfg a i (s # ss) acc st
                 = (fst (evaluate_submission w cfg a i s st), Inl Remove_failed))
        \<and> ((\<forall>j<length (rubric_criteria (rubric a)). \<not> leaves_undeletable (child w i j)) \<longrightarrow>
             next_dir st \<notin> dirs (fst (evaluate_submission w cfg a i s st))))
   \<and> ((\<forall>j<length (rubric_criteria (rubric a)). \<not> leaves_undeletable (child w i j)) \<longrightarrow>
        dirs (fst (evaluate_submission w cfg a i s st)) \<subseteq> dirs st)
   \<and> ((\<forall>k<length (submissions a). \<forall>j<length (rubric_criteria (rubric a)).
           \<not> leaves_undeletable (child w k j)) \<longrightarrow>
        dirs (fst (evaluate w cfg a rid st)) \<subseteq> dirs st)"
proof (intro conjI impI)
  show "dirs (fst (evaluate_submission w cfg a i s st)) \<subseteq> insert (next_dir st) (dirs st)"
    by (rule evaluate_submission_dirs)
next
  assume h: "\<not> filtered_out cfg (user_uid s) \<and> mktemp_ok w i"
  then show "Make_temp_dir (next_dir st) \<in> set (trace (fst (evaluate_submission w cfg a i s st)))"
    by (simp add: evaluate_submission_trace)
  from h show "Remove_dir (next_dir st) \<in> set (trace (fst (evaluate_submission w cfg a i s st)))"
    by (simp add: evaluate_submission_trace)
  {
    assume "next_dir st \<in> dirs (fst (evaluate_submission w cfg a i s st))"
    with h show r: "snd (evaluate_submission w cfg a i s st) = Inl Remove_failed"
      by (simp add: evaluate_submission_kept)
    then show "evaluate_submissions w cfg a i (s # ss) acc st
                 = (fst (evaluate_submission w cfg a i s st), Inl Remove_failed)"
      by (simp del: evaluate_submissions.simps add: evaluate_submissions_step)
  }
  {
    assume "\<forall>j<length (rubric_criteria (rubric a)). \<not> leaves_undeletable (child w i j)"
    from guarded_undeletable(1) [OF this] h
    show "next_dir st \<notin> dirs (fst (evaluate_submission w cfg a i s st))"
      by (simp add: evaluate_submission_removed(2))
  }
next
  assume "\<forall>j<length (rubric_criteria (rubric a)). \<not> leaves_undeletable (child w i j)"
  from guarded_undeletable(1) [OF this]
  show "dirs (fst (evaluate_submission w cfg a i s st)) \<subseteq> dirs st"
    by (rule evaluate_submission_removed(1))
next
  assume "\<forall>k<length (submissions a). \<forall>j<length (rubric_criteria (rubric a)).
           \<not> leaves_undeletable (child w k j)"
  then show "dirs (fst (evaluate w cfg a rid st)) \<subseteq> dirs st"
    by (rule evaluate_dirs)
qed

text \<open>The submission of the example, evaluated to the end, the one whose download answers
  404, and the one whose test command leaves something that cannot be deleted.\<close>

theorem working_directory_is_removed_unless_removal_fails_witness:
  "\<not> filtered_out example_config (user_uid (example_submission ''42''))
   \<and> mktemp_ok example_world 0 \<and> mktemp_ok failing_world 0 \<and> mktemp_ok littering_world 0
   \<and> next_dir initial_state = 0
   \<and> length (rubric_criteria (rubric (example_assignment [''42'']))) = 2
   \<and> \<not> leaves_undeletable (child example_world 0 0)
   \<and> \<not> leaves_undeletable (child example_world 0 1)
   \<and> 0 \<notin> dirs (fst (evaluate_submission example_world example_config
         (example_assignment [''42'']) 0 (example_submission ''42'') initial_state))
   \<and> 0 \<notin> dirs (fst (evaluate_submission failing_world example_config
         (example_assignment [''42'']) 0 (example_submission ''42'') initial_state))
   \<and> 0 \<in> dirs (fst (evaluate_submission littering_world example_config
         (example_assignment [''42'']) 0 (example_submission ''42'') initial_state))
   \<and> evaluate_submissions littering_world example_config (example_assignment [''42'']) 0
         [example_submission ''42''] [] initial_state
       = (fst (evaluate_submission littering_world example_config (example_assignment [''42'']) 0
                 (example_submission ''42'') initial_state), Inl Remove_failed)
   \<and> Remove_dir 0 \<in> set (trace (fst (evaluate_submission littering_world example_config
         (example_assignment [''42'']) 0 (example_submission ''42'') initial_state)))
   \<and> dirs (fst (evaluate example_world example_config (example_assignment [''42'']) None
         initial_state)) \<subseteq> dirs initial_state"
proof -
  have h: "\<not> filtered_out example_config (user_uid (example_submission ''42''))"
    "mktemp_ok example_world 0" "mktemp_ok failing_world 0" "mktemp_ok littering_world 0"
    "next_dir initial_state = 0"
    "length (rubric_criteria (rubric (example_assignment [''42'']))) = 2"
    by (simp_all add: filtered_out_def example_config_def example_world_def failing_world_def
        littering_world_def initial_state_def example_assignment_def example_criteria_def)
  have c: "\<not> leaves_undeletable (child example_world k j)"
    "\<not> leaves_undeletable (child failing_world k j)" for k j
    by (simp_all add: example_world_def failing_world_def example_child_def)
  have l: "0 \<in> dirs (fst (evaluate_submission littering_world example_config
         (example_assignment [''42'']) 0 (example_submission ''42'') initial_state))"
    by (simp add: littering_run)
  from working_directory_is_removed_unless_removal_fails [of example_world example_config
      "example_assignment [''42'']" 0 "example_submission ''42''" initial_state "[]" "[]" None]
    working_directory_is_removed_unless_removal_fails [of failing_world example_config
      "example_assignment [''42'']" 0 "example_submission ''42''" initial_state "[]" "[]" None]
    working_directory_is_removed_unless_removal_fails [of littering_world example_config
      "example_assignment [''42'']" 0 "example_submission ''42''" initial_state "[]" "[]" None]
    h c l
  show ?thesis by simp
qed

section \<open>A failed download\<close>

text \<open>
  Claim C2, as the program has it. The \<^verbatim>\<open>try\<close> block of a submission has a \<^verbatim>\<open>finally\<close> and no
  \<^verbatim>\<open>catch\<close>. If a download of the submission answers with a status other than 200 or without
  a body, the evaluation of the submission throws: no assessment is appended for it, its
  working directory is removed, and the error leaves the loop over the submissions and
  \<^verbatim>\<open>evaluate\<close> itself, so that no later submission is attempted and no dataset is returned.
\<close>

theorem failed_download_ends_the_run:
  assumes "\<not> filtered_out cfg (user_uid s)" and "mktemp_ok w i"
    and "rest w i = Rest_attachments atts" and "n < length atts"
    and "download_fails (download w i n)"
  shows "\<exists>e. snd (evaluate_submission w cfg a i s st) = Inl e
     \<and> Remove_dir (next_dir st) \<in> set (trace (fst (evaluate_submission w cfg a i s st)))
     \<and> next_dir st \<notin> dirs (fst (evaluate_submission w cfg a i s st))
     \<and> evaluate_submissions w cfg a i (s # ss) acc st
         = (fst (evaluate_submission w cfg a i s st), Inl e)
     \<and> (\<forall>st0. submissions a = pre @ s # ss \<and> i = length pre
              \<and> evaluate_submissions w cfg a 0 pre [] st0 = (st, Inr acc)
           \<longrightarrow> evaluate w cfg a rid st0 = (fst (evaluate_submission w cfg a i s st), Inl e))"
proof -
  from evaluate_submission_download_fails [OF assms]
  obtain e where e: "snd (evaluate_submission w cfg a i s st) = Inl e" by blast
  have loop: "evaluate_submissions w cfg a i (s # ss) acc st
         = (fst (evaluate_submission w cfg a i s st), Inl e)"
    using e by (simp del: evaluate_submissions.simps add: evaluate_submissions_step)
  have run: "evaluate w cfg a rid st0 = (fst (evaluate_submission w cfg a i s st), Inl e)"
    if h: "submissions a = pre @ s # ss \<and> i = length pre
              \<and> evaluate_submissions w cfg a 0 pre [] st0 = (st, Inr acc)" for st0
  proof -
    from h have "evaluate_submissions w cfg a 0 pre [] st0 = (st, Inr acc)" by simp
    from evaluate_submissions_append [OF this, of "s # ss"] h loop
    have "evaluate_submissions w cfg a 0 (submissions a) [] st0
        = (fst (evaluate_submission w cfg a i s st), Inl e)"
      by simp
    then show ?thesis by (simp add: evaluate_def)
  qed
  have gone: "next_dir st \<notin> dirs (fst (evaluate_submission w cfg a i s st))"
    using guarded_undeletable(2) [OF assms(3,4,5)] assms(1,2)
    by (rule evaluate_submission_removed(2))
  from e loop run evaluate_submission_trace(2) [OF assms(1,2)] gone
  show ?thesis by auto
qed

text \<open>Two submissions, the download for the first answers 404.\<close>

theorem failed_download_ends_the_run_witness:
  "\<not> filtered_out example_config (user_uid (example_submission ''1''))
   \<and> mktemp_ok failing_world 0
   \<and> rest failing_world 0 = Rest_attachments [\<lparr>display_name = ''a.c'', url = ''u''\<rparr>]
   \<and> download_fails (download failing_world 0 0)
   \<and> submissions (example_assignment [''1'', ''2''])
       = [] @ example_submission ''1'' # [example_submission ''2'']
   \<and> evaluate_submissions failing_world example_config (example_assignment [''1'', ''2'']) 0 [] []
        initial_state = (initial_state, Inr [])
   \<and> (\<exists>e. evaluate failing_world example_config (example_assignment [''1'', ''2'']) None initial_state
        = (fst (evaluate_submission failing_world example_config (example_assignment [''1'', ''2''])
                  0 (example_submission ''1'') initial_state), Inl e))
   \<and> next_dir initial_state
        \<notin> dirs (fst (evaluate_submission failing_world example_config
             (example_assignment [''1'', ''2'']) 0 (example_submission ''1'') initial_state))"
proof -
  have h: "\<not> filtered_out example_config (user_uid (example_submission ''1''))"
    "mktemp_ok failing_world 0"
    "rest failing_world 0 = Rest_attachments [\<lparr>display_name = ''a.c'', url = ''u''\<rparr>]"
    "0 < length [\<lparr>display_name = ''a.c'', url = ''u''\<rparr>]"
    "download_fails (download failing_world 0 0)"
    by (simp_all add: filtered_out_def example_config_def example_world_def failing_world_def)
  have s: "submissions (example_assignment [''1'', ''2''])
       = [] @ example_submission ''1'' # [example_submission ''2'']"
    by (simp add: example_assignment_def)
  have p: "evaluate_submissions failing_world example_config (example_assignment [''1'', ''2'']) 0 [] []
        initial_state = (initial_state, Inr [])"
    by simp
  from failed_download_ends_the_run [OF h, of "example_assignment [''1'', ''2'']" initial_state
      "[example_submission ''2'']" "[]" "[]" None] h s p
  show ?thesis by auto
qed

text \<open>
  The claim as stated lets the run continue with the remaining submissions. In that run
  \<^verbatim>\<open>evaluate\<close> ends with the error after the first submission: nothing is requested for
  the second submission, and there is no dataset.
\<close>

theorem failed_download_is_not_survived:
  "evaluate failing_world example_config (example_assignment [''1'', ''2'']) None initial_state
   = (\<lparr>trace = [Console_log (Evaluating_submission 1 2 ''s1'' ''n''), Make_temp_dir 0,
                Get_submission ''1'', Get_attachment ''u'', Remove_dir 0],
       dirs = {}, undeletable = {}, next_dir = 1\<rparr>,
      Inl (Unexpected_status 404))"
  by (simp add: example_world_def example_config_def example_assignment_def
      example_submission_def example_criteria_def initial_state_def failing_world_def
      evaluate_def evaluate_submission_def submission_body_def makeTempDir_def
      remove_recursive_def filtered_out_def emit_def console_log_def log_if_def)

section \<open>The filter in both phases\<close>

text \<open>
  Claim C5. A user is filtered out exactly if a list of users is given and no member of it
  has the user's id, or a member of the list of excepted users has it; without a list of
  users, exactly the excepted users are filtered out. In \<^verbatim>\<open>evaluate\<close>, a submission of a
  filtered user is skipped before anything is done for it and yields no assessment, a
  submission of any other user is not skipped, and the assessments of a dataset that is
  returned are those of the submissions of the users not filtered out, in order. In
  \<^verbatim>\<open>upload\<close>, the assessments that are kept are those of the users not filtered out.
\<close>

theorem filter_skips_exactly_the_excluded_users:
  "(filtered_out cfg uid \<longleftrightarrow>
      (\<exists>us. users cfg = Some us \<and> uid \<notin> toString ` set us)
      \<or> uid \<in> toString ` set (exceptUsers cfg))
   \<and> (users cfg = None \<longrightarrow>
        (filtered_out cfg uid \<longleftrightarrow> uid \<in> toString ` set (exceptUsers cfg)))
   \<and> (filtered_out cfg (user_uid s) \<longrightarrow>
        evaluate_submission w cfg a i s st
          = (log_if (verbose cfg)
               (Skipping_submission (Suc i) (length (submissions a)) (submission_id s) (user_name s)) st,
             Inr None))
   \<and> (\<not> filtered_out cfg (user_uid s) \<longrightarrow> snd (evaluate_submission w cfg a i s st) \<noteq> Inr None)
   \<and> (\<forall>d. snd (evaluate w cfg a rid st) = Inr d \<longrightarrow>
         map user_id (assessmentOutputDataList d)
           = filter (\<lambda>u. \<not> filtered_out cfg u) (map user_uid (submissions a)))
   \<and> fst (filter_assessments cfg outs st)
        = filter (\<lambda>out. \<not> filtered_out cfg (user_id out)) outs"
proof (intro conjI)
  show "filtered_out cfg uid \<longleftrightarrow>
      (\<exists>us. users cfg = Some us \<and> uid \<notin> toString ` set us)
      \<or> uid \<in> toString ` set (exceptUsers cfg)"
    by (rule filtered_out_iff)
next
  show "users cfg = None \<longrightarrow>
        (filtered_out cfg uid \<longleftrightarrow> uid \<in> toString ` set (exceptUsers cfg))"
    by (simp add: filtered_out_iff)
next
  show "filtered_out cfg (user_uid s) \<longrightarrow>
        evaluate_submission w cfg a i s st
          = (log_if (verbose cfg)
               (Skipping_submission (Suc i) (length (submissions a)) (submission_id s) (user_name s)) st,
             Inr None)"
    by (simp add: evaluate_submission_def)
next
  show "\<not> filtered_out cfg (user_uid s) \<longrightarrow> snd (evaluate_submission w cfg a i s st) \<noteq> Inr None"
    using evaluate_submission_result [of cfg s w a i st] by simp
next
  show "\<forall>d. snd (evaluate w cfg a rid st) = Inr d \<longrightarrow>
         map user_id (assessmentOutputDataList d)
           = filter (\<lambda>u. \<not> filtered_out cfg u) (map user_uid (submissions a))"
    by (simp add: evaluate_users)
next
  show "fst (filter_assessments cfg outs st)
        = filter (\<lambda>out. \<not> filtered_out cfg (user_id out)) outs"
    by (simp add: filter_assessments_eq)
qed

text \<open>With the users restricted to 2, user 1 is skipped; with no list of users and user 3
  excepted, user 3 is skipped and users 1 and 2 are not.\<close>

theorem filter_skips_exactly_the_excluded_users_witness:
  "users (example_config\<lparr>users := Some [2]\<rparr>) = Some [2]
   \<and> ''1'' \<notin> toString ` set [2]
   \<and> filtered_out (example_config\<lparr>users := Some [2]\<rparr>) (user_uid (example_submission ''1''))
   \<and> evaluate_submission example_world (example_config\<lparr>users := Some [2]\<rparr>)
        (example_assignment [''1'', ''2'']) 0 (example_submission ''1'') initial_state
       = (initial_state, Inr None)
   \<and> users (example_config\<lparr>exceptUsers := [3]\<rparr>) = None
   \<and> filtered_out (example_config\<lparr>exceptUsers := [3]\<rparr>) ''3''
   \<and> \<not> filtered_out (example_config\<lparr>exceptUsers := [3]\<rparr>) (user_uid (example_submission ''1''))
   \<and> \<not> filtered_out (example_config\<lparr>exceptUsers := [3]\<rparr>) ''2''
   \<and> snd (evaluate_submission example_world (example_config\<lparr>exceptUsers := [3]\<rparr>)
        (example_assignment [''1'', ''2'']) 0 (example_submission ''1'') initial_state) \<noteq> Inr None"
proof -
  have u: "users (example_config\<lparr>users := Some [2]\<rparr>) = Some [2]"
    "users (example_config\<lparr>exceptUsers := [3]\<rparr>) = None"
    "exceptUsers (example_config\<lparr>users := Some [2]\<rparr>) = []"
    "exceptUsers (example_config\<lparr>exceptUsers := [3]\<rparr>) = [3]"
    "verbose (example_config\<lparr>users := Some [2]\<rparr>) = False"
    "user_uid (example_submission ''1'') = ''1''"
    by (simp_all add: example_config_def example_submission_def)
  have m: "''1'' \<notin> toString ` set [2]" "''3'' \<in> toString ` set [3]"
    "''1'' \<notin> toString ` set [3]" "''2'' \<notin> toString ` set [3]"
    by (simp_all add: toString_examples)
  note t = filter_skips_exactly_the_excluded_users
  from t [of "example_config\<lparr>users := Some [2]\<rparr>" "''1''" "example_submission ''1''"
        example_world "example_assignment [''1'', ''2'']" 0 initial_state None "[]"]
    t [of "example_config\<lparr>exceptUsers := [3]\<rparr>" "''3''" "example_submission ''1''"
        example_world "example_assignment [''1'', ''2'']" 0 initial_state None "[]"]
    t [of "example_config\<lparr>exceptUsers := [3]\<rparr>" "''2''" "example_submission ''1''"
        example_world "example_assignment [''1'', ''2'']" 0 initial_state None "[]"]
    t [of "example_config\<lparr>exceptUsers := [3]\<rparr>" "''1''" "example_submission ''1''"
        example_world "example_assignment [''1'', ''2'']" 0 initial_state None "[]"]
    u m
  show ?thesis by (simp add: log_if_def)
qed

end
